theory Spec2Isabelle
  imports Complex_Main "HOL-Library.AList"
begin

section \<open>JavaScript values\<close>

text \<open>
  The dashboard components are TypeScript. A JavaScript number is either NaN, one of the
  two infinities, or a finite binary64 value, kept here as the rational it denotes. The
  result of parsing a literal and of every arithmetic operation is rounded to the nearest
  binary64 value, ties to even (\<open>Number_value\<close>). The sign of zero is not modelled.
\<close>

datatype jsnum = Fin rat | PInf | NInf | NaN

text \<open>
  A cell of an uploaded row, or any value handed to \<open>toNumber\<close> (its parameter has type
  \<open>any\<close>). \<open>JObject\<close> stands for every non-primitive value and carries the string the
  value converts to. Strings are lists of 8-bit characters.
\<close>

datatype jsval = JUndefined | JNull | JBool bool | JNum jsnum | JStr string | JObject string

definition overflow_bound :: rat where
  "overflow_bound = 2 ^ 1024 - 2 ^ 970"

definition underflow_bound :: rat where
  "underflow_bound = 1 / 2 ^ 1075"

text \<open>
  The binary exponent of a positive value: the \<open>e\<close> with \<open>2^e \<le> q < 2^(e+1)\<close>, found by
  halving or doubling at most as often as the fuel allows.
\<close>

fun binade :: "nat \<Rightarrow> rat \<Rightarrow> int" where
  "binade 0 q = 0"
| "binade (Suc fuel) q =
     (if 2 \<le> q then binade fuel (q / 2) + 1
      else if q < 1 then binade fuel (q * 2) - 1
      else 0)"

text \<open>The nearest integer, a tie going to the even one.\<close>

definition roundHalfEven :: "rat \<Rightarrow> int" where
  "roundHalfEven x =
     (let f = \<lfloor>x\<rfloor>; d = x - of_int f
      in if d < 1 / 2 then f else if 1 / 2 < d then f + 1 else if even f then f else f + 1)"

text \<open>
  The nearest binary64 value of a positive value between the underflow and the overflow
  bound: a multiple of \<open>2^(e - 52)\<close>, where \<open>e\<close> is the binary exponent of the value and
  at least -1022 (below that the values are subnormal).
\<close>

definition round64 :: "rat \<Rightarrow> rat" where
  "round64 a =
     (let e = max (binade 1100 a) (- 1022); ulp = 2 powi (e - 52)
      in of_int (roundHalfEven (a / ulp)) * ulp)"

text \<open>
  The Number value of a mathematical value: magnitudes from \<open>2^1024 - 2^970\<close> on round to
  an infinity, magnitudes up to \<open>2^-1075\<close> round to zero, and the values between round to
  the nearest binary64 value.
\<close>

definition Number_value :: "rat \<Rightarrow> jsnum" where
  "Number_value q =
     (if overflow_bound \<le> \<bar>q\<bar> then (if 0 < q then PInf else NInf)
      else if \<bar>q\<bar> \<le> underflow_bound then Fin 0
      else Fin (if 0 < q then round64 q else - round64 (- q)))"

definition is_finite :: "jsnum \<Rightarrow> bool" where
  "is_finite n = (case n of Fin _ \<Rightarrow> True | _ \<Rightarrow> False)"

text \<open>\<open>isNaN\<close> applied to a number.\<close>

definition isNaN :: "jsnum \<Rightarrow> bool" where
  "isNaN n = (case n of NaN \<Rightarrow> True | _ \<Rightarrow> False)"

section \<open>The numeric coercion of the analysis components\<close>

text \<open>
  \<^verbatim>\<open>
  const toNumber = (value: any): number => {
    if (typeof value === 'number') return value;
    if (typeof value === 'string') {
      const cleaned = value.replace(/[$,\s%]/g, '');
      const num = parseFloat(cleaned);
      return isNaN(num) ? 0 : num;
    }
    return 0;
  };
  \<close>
  The same function is declared in the customer, product and operational components.
\<close>

definition isDigit :: "char \<Rightarrow> bool" where
  "isDigit c = (c \<in> set ''0123456789'')"

definition digitVal :: "char \<Rightarrow> nat" where
  "digitVal c = of_char c - 48"

definition digitsVal :: "string \<Rightarrow> nat" where
  "digitsVal ds = foldl (\<lambda>acc c. 10 * acc + digitVal c) 0 ds"

text \<open>The white space of \<open>\s\<close> and of the trimming in \<open>parseFloat\<close>, below U+0100.\<close>

definition isWhiteSpace :: "char \<Rightarrow> bool" where
  "isWhiteSpace c =
     (c \<in> set [CHR 0x09, CHR 0x0A, CHR 0x0B, CHR 0x0C, CHR 0x0D, CHR 0x20, CHR 0xA0])"

text \<open>The character class \<open>[$,\s%]\<close>.\<close>

definition stripChar :: "char \<Rightarrow> bool" where
  "stripChar c = (c = CHR ''$'' \<or> c = CHR '','' \<or> isWhiteSpace c \<or> c = CHR ''%'')"

definition cleaned :: "string \<Rightarrow> string" where
  "cleaned s = filter (\<lambda>c. \<not> stripChar c) s"

definition pow10 :: "int \<Rightarrow> rat" where
  "pow10 e = (if 0 \<le> e then 10 ^ nat e else 1 / 10 ^ nat (- e))"

text \<open>An optional sign: whether it is a minus, and the rest.\<close>

fun splitSign :: "string \<Rightarrow> bool \<times> string" where
  "splitSign [] = (False, [])"
| "splitSign (c # r) =
     (if c = CHR ''-'' then (True, r) else if c = CHR ''+'' then (False, r) else (False, c # r))"

text \<open>
  The exponent part \<open>[eE][+-]?digits\<close> at the head of a string; 0 when there is none (an
  \<open>e\<close> without digits is not part of the literal).
\<close>

fun exponentPart :: "string \<Rightarrow> int" where
  "exponentPart [] = 0"
| "exponentPart (c # r) =
     (if c = CHR ''e'' \<or> c = CHR ''E''
      then (let (eneg, d) = splitSign r; ds = takeWhile isDigit d
            in if ds = [] then 0
               else if eneg then - int (digitsVal ds) else int (digitsVal ds))
      else 0)"

text \<open>The fraction digits after a decimal point at the head of a string, and the rest.\<close>

fun fractionPart :: "string \<Rightarrow> string \<times> string" where
  "fractionPart [] = ([], [])"
| "fractionPart (c # r) =
     (if c = CHR ''.'' then (takeWhile isDigit r, dropWhile isDigit r) else ([], c # r))"

text \<open>
  \<open>parseFloat\<close>: leading white space is dropped, the longest prefix that is a
  \<open>StrDecimalLiteral\<close> is read (sign, then \<open>Infinity\<close> or digits with an optional
  fraction and exponent), and its Number value returned; NaN when no prefix is one.
\<close>

definition parseFloat :: "string \<Rightarrow> jsnum" where
  "parseFloat s =
     (let (neg, u) = splitSign (dropWhile isWhiteSpace s)
      in if take 8 u = ''Infinity'' then (if neg then NInf else PInf)
         else
           (let ip = takeWhile isDigit u;
                (fp, r2) = fractionPart (dropWhile isDigit u)
            in if ip = [] \<and> fp = [] then NaN
               else
                 (let mv = (of_nat (digitsVal ip) + of_nat (digitsVal fp) / 10 ^ length fp)
                             * pow10 (exponentPart r2)
                  in Number_value (if neg then - mv else mv))))"

definition toNumber :: "jsval \<Rightarrow> jsnum" where
  "toNumber v =
     (case v of
        JNum n \<Rightarrow> n
      | JStr s \<Rightarrow> (let num = parseFloat (cleaned s) in if isNaN num then Fin 0 else num)
      | _ \<Rightarrow> Fin 0)"

text \<open>
  Whether a string begins like a numeric literal: after an optional sign comes
  \<open>Infinity\<close>, a digit, or a point and a digit.
\<close>

definition numericStart :: "string \<Rightarrow> bool" where
  "numericStart s =
     (let u = snd (splitSign s)
      in take 8 u = ''Infinity''
         \<or> (case u of
               [] \<Rightarrow> False
             | c # r \<Rightarrow> isDigit c \<or> (c = CHR ''.'' \<and> (case r of [] \<Rightarrow> False | d # _ \<Rightarrow> isDigit d))))"

section \<open>Data model\<close>

record ColumnMapping =
  sourceColumn :: string
  businessField :: "string option"
  mapped :: bool
  confidence :: rat

type_synonym row = "(string \<times> jsval) list"

record ProcessedDataset =
  fileName :: string
  rowCount :: nat
  data :: "row list"
  mappings :: "ColumnMapping list"

section \<open>Navigation\<close>

datatype DashboardSection =
  SecUpload | SecMapping | SecSummary | SecTrends | SecProducts | SecCustomers
  | SecFinancial | SecOperational | SecMarketing

text \<open>
  \<^verbatim>\<open>
  const isAccessible = (section: DashboardSection) => {
    if (section === 'upload') return true;
    if (section === 'mapping') return !!processedData;
    return !!processedData && processedData.mappings.filter(m => m.mapped).length >= 5;
  };
  \<close>
  \<open>processedData\<close> is the store's current dataset, absent before an upload.
\<close>

definition isAccessible :: "ProcessedDataset option \<Rightarrow> DashboardSection \<Rightarrow> bool" where
  "isAccessible processedData section =
     (if section = SecUpload then True
      else if section = SecMapping then processedData \<noteq> None
      else (case processedData of
              None \<Rightarrow> False
            | Some pd \<Rightarrow> 5 \<le> length (filter mapped (mappings pd))))"

text \<open>
  \<open>handleSectionChange\<close>: the new current section. Without a dataset every request
  but the one for the upload section is dropped.
\<close>

definition handleSectionChange ::
  "ProcessedDataset option \<Rightarrow> DashboardSection \<Rightarrow> DashboardSection \<Rightarrow> DashboardSection" where
  "handleSectionChange processedData currentSection section =
     (if processedData = None \<and> section \<noteq> SecUpload \<and> section \<noteq> SecMapping then currentSection
      else if processedData = None \<and> section = SecMapping then currentSection
      else section)"

text \<open>
  A click on a navigation button: the button is disabled when its section is not
  accessible, and only an enabled button calls \<open>handleSectionChange\<close>.
\<close>

definition navClick ::
  "ProcessedDataset option \<Rightarrow> DashboardSection \<Rightarrow> DashboardSection \<Rightarrow> DashboardSection" where
  "navClick processedData currentSection section =
     (if isAccessible processedData section
      then handleSectionChange processedData currentSection section
      else currentSection)"

section \<open>Arithmetic and conversions of JavaScript numbers\<close>

text \<open>
  The arithmetic of numbers: on finite values the exact result is rounded by
  \<open>Number_value\<close>, as IEEE 754 prescribes; NaN and the infinities follow IEEE 754. A
  division by the finite value zero takes it for positive zero.
\<close>

fun js_add :: "jsnum \<Rightarrow> jsnum \<Rightarrow> jsnum" where
  "js_add (Fin a) (Fin b) = Number_value (a + b)"
| "js_add NaN _ = NaN"
| "js_add _ NaN = NaN"
| "js_add PInf NInf = NaN"
| "js_add NInf PInf = NaN"
| "js_add PInf _ = PInf"
| "js_add _ PInf = PInf"
| "js_add NInf _ = NInf"
| "js_add _ NInf = NInf"



text \<open>A product of zero and an infinity is NaN.\<close>

fun js_mul :: "jsnum \<Rightarrow> jsnum \<Rightarrow> jsnum" where
  "js_mul (Fin a) (Fin b) = Number_value (a * b)"
| "js_mul NaN _ = NaN"
| "js_mul _ NaN = NaN"
| "js_mul (Fin a) PInf = (if a = 0 then NaN else if 0 < a then PInf else NInf)"
| "js_mul (Fin a) NInf = (if a = 0 then NaN else if 0 < a then NInf else PInf)"
| "js_mul PInf (Fin b) = (if b = 0 then NaN else if 0 < b then PInf else NInf)"
| "js_mul NInf (Fin b) = (if b = 0 then NaN else if 0 < b then NInf else PInf)"
| "js_mul PInf PInf = PInf"
| "js_mul PInf NInf = NInf"
| "js_mul NInf PInf = NInf"
| "js_mul NInf NInf = PInf"

fun js_div :: "jsnum \<Rightarrow> jsnum \<Rightarrow> jsnum" where
  "js_div (Fin a) (Fin b) =
     (if b = 0 then (if a = 0 then NaN else if 0 < a then PInf else NInf)
      else Number_value (a / b))"
| "js_div NaN _ = NaN"
| "js_div _ NaN = NaN"
| "js_div (Fin a) PInf = Fin 0"
| "js_div (Fin a) NInf = Fin 0"
| "js_div PInf (Fin b) = (if 0 \<le> b then PInf else NInf)"
| "js_div NInf (Fin b) = (if 0 \<le> b then NInf else PInf)"
| "js_div PInf PInf = NaN"
| "js_div PInf NInf = NaN"
| "js_div NInf PInf = NaN"
| "js_div NInf NInf = NaN"




text \<open>Truthiness, as \<open>||\<close> tests it: of a number, and of any value.\<close>

fun truthyNum :: "jsnum \<Rightarrow> bool" where
  "truthyNum (Fin a) = (a \<noteq> 0)"
| "truthyNum NaN = False"
| "truthyNum PInf = True"
| "truthyNum NInf = True"

fun truthy :: "jsval \<Rightarrow> bool" where
  "truthy JUndefined = False"
| "truthy JNull = False"
| "truthy (JBool b) = b"
| "truthy (JNum n) = truthyNum n"
| "truthy (JStr s) = (s \<noteq> [])"
| "truthy (JObject s) = True"

text \<open>The character of a decimal digit, used below 10 only.\<close>

definition digitChar :: "nat \<Rightarrow> char" where
  "digitChar d = ''0123456789'' ! d"

text \<open>The decimal digits of a natural number, as a template literal prints an index.\<close>

function natToString :: "nat \<Rightarrow> string" where
  "natToString n =
     (if n < 10 then [digitChar n] else natToString (n div 10) @ [digitChar (n mod 10)])"
  by pat_completeness auto
termination
  by (relation "measure id") auto

declare natToString.simps [simp del]

text \<open>
  The number of fraction digits of a positive value: the least \<open>m\<close> for which
  \<open>q * 10^m\<close> is an integer, searched up to the fuel. Every binary64 value has at most
  1074 of them.
\<close>

fun fracDigits :: "nat \<Rightarrow> rat \<Rightarrow> nat" where
  "fracDigits 0 q = 0"
| "fracDigits (Suc fuel) q = (if of_int \<lfloor>q\<rfloor> = q then 0 else Suc (fracDigits fuel (q * 10)))"

text \<open>The number of zeros a positive natural number ends in.\<close>

function trailingZeros :: "nat \<Rightarrow> nat" where
  "trailingZeros n = (if n = 0 \<or> n mod 10 \<noteq> 0 then 0 else Suc (trailingZeros (n div 10)))"
  by pat_completeness auto
termination
  by (relation "measure id") auto

declare trailingZeros.simps [simp del]

text \<open>
  \<open>Number::toString\<close> of a positive finite value \<open>s * 10^(n - k)\<close>, where the \<open>k\<close>
  digits of \<open>s\<close> do not end in a zero: positional notation for \<open>-6 < n \<le> 21\<close>,
  exponential notation otherwise. The digits are those of the exact value, which for an
  integer below \<open>2^53\<close> are the digits JavaScript prints.
\<close>

definition posToString :: "rat \<Rightarrow> string" where
  "posToString q =
     (let m = fracDigits 1100 q;
          S = nat \<lfloor>q * 10 ^ m\<rfloor>;
          z = (if m = 0 then trailingZeros S else 0);
          digits = natToString (S div 10 ^ z);
          k = int (length digits);
          n = k + int z - int m
      in if k \<le> n \<and> n \<le> 21 then digits @ replicate (nat (n - k)) CHR ''0''
         else if 0 < n \<and> n \<le> 21 then take (nat n) digits @ ''.'' @ drop (nat n) digits
         else if - 6 < n \<and> n \<le> 0 then ''0.'' @ replicate (nat (- n)) CHR ''0'' @ digits
         else (let e = (if n - 1 < 0 then ''-'' else ''+'') @ natToString (nat \<bar>n - 1\<bar>)
               in if k = 1 then digits @ ''e'' @ e
                  else take 1 digits @ ''.'' @ drop 1 digits @ ''e'' @ e))"

fun Number_toString :: "jsnum \<Rightarrow> string" where
  "Number_toString NaN = ''NaN''"
| "Number_toString PInf = ''Infinity''"
| "Number_toString NInf = ''-Infinity''"
| "Number_toString (Fin q) =
     (if q = 0 then ''0'' else if q < 0 then ''-'' @ posToString (- q) else posToString q)"

text \<open>The string a value converts to when it is used as a property key.\<close>

fun ToString :: "jsval \<Rightarrow> string" where
  "ToString JUndefined = ''undefined''"
| "ToString JNull = ''null''"
| "ToString (JBool b) = (if b then ''true'' else ''false'')"
| "ToString (JNum n) = Number_toString n"
| "ToString (JStr s) = s"
| "ToString (JObject s) = s"

section \<open>Reading mapped columns\<close>

text \<open>\<open>row[key]\<close>: the cell, or \<open>undefined\<close> when the row has no such key.\<close>

definition rowGet :: "row \<Rightarrow> string \<Rightarrow> jsval" where
  "rowGet r key = (case map_of r key of None \<Rightarrow> JUndefined | Some v \<Rightarrow> v)"

text \<open>\<open>xs[i]\<close>: the element, or \<open>undefined\<close> past the end.\<close>

definition arrGet :: "jsval list \<Rightarrow> nat \<Rightarrow> jsval" where
  "arrGet xs i = (if i < length xs then xs ! i else JUndefined)"

text \<open>
  \<^verbatim>\<open>
  const getMappedValues = (businessFieldName: string): any[] => {
    const mapping = processedData.mappings.find(m => m.businessField === businessFieldName && m.mapped);
    if (!mapping) return [];
    return processedData.data.map(row => row[mapping.sourceColumn])
      .filter(v => v !== null && v !== undefined && v !== '');
  };
  \<close>
\<close>

definition getMappedValues :: "ProcessedDataset \<Rightarrow> string \<Rightarrow> jsval list" where
  "getMappedValues processedData businessFieldName =
     (case find (\<lambda>m. businessField m = Some businessFieldName \<and> mapped m)
             (mappings processedData) of
        None \<Rightarrow> []
      | Some mapping \<Rightarrow>
          filter (\<lambda>v. v \<noteq> JNull \<and> v \<noteq> JUndefined \<and> v \<noteq> JStr [])
            (map (\<lambda>r. rowGet r (sourceColumn mapping)) (data processedData)))"

section \<open>Customer revenue aggregation\<close>

text \<open>
  \<open>Math.random\<close> is a source of draws from \<open>[0, 1)\<close>: the function gives the draws in
  the order they are taken, and the state of a computation counts the draws taken.
\<close>

type_synonym rng = "nat \<Rightarrow> rat"

text \<open>
  \<^verbatim>\<open>
  const customers = getMappedValues('Customer ID').concat(getMappedValues('Customer Email'));
  const revenues = getMappedValues('Revenue').concat(getMappedValues('Total Amount'));

  const customerRevenues: Record<string, number> = {};
  processedData.data.forEach((row, index) => {
    const customerId = customers[index] || `Customer ${index + 1}`;
    const revenue = toNumber(revenues[index]) || Math.random() * 500 + 50;
    customerRevenues[customerId] = (customerRevenues[customerId] || 0) + revenue;
  });
  \<close>
  The record is an association list from property keys to numbers. The order in which
  JavaScript enumerates the keys is not modelled (the segment counts do not depend on
  it), nor are the properties a record inherits from its prototype.
\<close>

definition customers :: "ProcessedDataset \<Rightarrow> jsval list" where
  "customers pd = getMappedValues pd ''Customer ID'' @ getMappedValues pd ''Customer Email''"

definition revenues :: "ProcessedDataset \<Rightarrow> jsval list" where
  "revenues pd = getMappedValues pd ''Revenue'' @ getMappedValues pd ''Total Amount''"

text \<open>One pass of the loop body at a row index: the record and the draws taken so far.\<close>

definition customerStep ::
  "rng \<Rightarrow> jsval list \<Rightarrow> jsval list \<Rightarrow> nat \<Rightarrow> (string \<times> jsnum) list \<times> nat
   \<Rightarrow> (string \<times> jsnum) list \<times> nat" where
  "customerStep rnd cs rs index st =
     (let (customerRevenues, k) = st;
          customerId = (if truthy (arrGet cs index) then arrGet cs index
                        else JStr (''Customer '' @ natToString (index + 1)));
          t = toNumber (arrGet rs index);
          (revenue, k') = (if truthyNum t then (t, k)
                           else (js_add (js_mul (Fin (rnd k)) (Fin 500)) (Fin 50), Suc k));
          key = ToString customerId;
          old = (case map_of customerRevenues key of
                   None \<Rightarrow> Fin 0
                 | Some v \<Rightarrow> if truthyNum v then v else Fin 0)
      in (AList.update key (js_add old revenue) customerRevenues, k'))"

definition customerRevenues :: "rng \<Rightarrow> ProcessedDataset \<Rightarrow> (string \<times> jsnum) list" where
  "customerRevenues rnd pd =
     fst (fold (customerStep rnd (customers pd) (revenues pd)) [0..<length (data pd)] ([], 0))"


section \<open>Trend series\<close>

record GrowthRates =
  monthly :: jsnum
  quarterly :: jsnum
  yearly :: jsnum

text \<open>
  The metrics of the store, with the fields that the modelled components read as
  numbers.
\<close>

record Metrics =
  totalRevenue :: jsnum
  totalProfit :: jsnum
  totalTransactions :: jsnum
  avgOrderValue :: jsnum
  profitMargin :: jsnum
  growthRates :: GrowthRates


record TrendPoint =
  period :: string
  revenue :: jsnum
  transactions :: jsnum
  index :: nat







section \<open>The mapping engine of the specification\<close>

text \<open>
  The dashboard components read the mappings and the metrics from the store; the column
  mapper and the data processor that fill it are defined here as the specification
  describes them.
\<close>

text \<open>Modelled from the spec: the expected value types of a catalog field (section 3).\<close>

datatype ExpectedType =
  TCurrency | TNumber | TPercentage | TDate | TIdentifier | TText | TCategorical

text \<open>Modelled from the spec: the catalog entry \<open>FieldDefinition\<close> (section 3).\<close>

record FieldDefinition =
  ident :: string
  displayName :: string
  category :: string
  expectedType :: ExpectedType
  aliases :: "string list"
  keywordPatterns :: "string list"

text \<open>Modelled from the spec: \<open>RawColumn\<close> (section 3).\<close>

record RawColumn =
  name :: string
  sampleValues :: "jsval list"

text \<open>Modelled from the spec: the reasons a candidate can carry (section 3).\<close>

datatype MatchReason = nameMatch | aliasMatch | keywordMatch | typeMatch

text \<open>Modelled from the spec: \<open>CandidateMatch\<close> (section 3).\<close>

record CandidateMatch =
  fieldId :: string
  columnName :: string
  matchConfidence :: rat
  reasons :: "MatchReason list"

text \<open>
  Modelled from the spec: the weighted score of a column against one catalog field
  (section 4.2, steps 1 to 4) is not given numerically, so it is a parameter of the
  classifier: the combined contributions and the reasons that contributed.
\<close>

type_synonym scoring = "RawColumn \<Rightarrow> FieldDefinition \<Rightarrow> rat \<times> MatchReason list"

text \<open>Modelled from the spec: step 5 of section 4.2, the confidence is clipped to [0, 1].\<close>

definition clip :: "rat \<Rightarrow> rat" where
  "clip c = max 0 (min 1 c)"

text \<open>
  Modelled from the spec: \<open>classify\<close> (section 4.2), one candidate per catalog field
  in descending confidence, ties in catalog declaration order (the sort is stable).
\<close>

definition classify :: "scoring \<Rightarrow> RawColumn \<Rightarrow> FieldDefinition list \<Rightarrow> CandidateMatch list" where
  "classify scoreOf column catalog =
     sort_key (\<lambda>c. - matchConfidence c)
       (map (\<lambda>f. \<lparr>fieldId = ident f, columnName = name column,
                   matchConfidence = clip (fst (scoreOf column f)),
                   reasons = snd (scoreOf column f)\<rparr>) catalog)"

text \<open>Modelled from the spec: the best candidate of a column, when the catalog gives one.\<close>

definition bestCandidate ::
  "scoring \<Rightarrow> FieldDefinition list \<Rightarrow> RawColumn \<Rightarrow> CandidateMatch option" where
  "bestCandidate scoreOf catalog column =
     (case classify scoreOf column catalog of [] \<Rightarrow> None | c # _ \<Rightarrow> Some c)"

text \<open>
  Modelled from the spec: steps 1 and 2 of \<open>resolve\<close> (section 4.3). Each column, with
  its position, proposes its best candidate when that exceeds the threshold; the
  proposals are sorted by descending confidence, ties in column order.
\<close>

definition proposals ::
  "scoring \<Rightarrow> rat \<Rightarrow> RawColumn list \<Rightarrow> FieldDefinition list \<Rightarrow> (nat \<times> CandidateMatch) list" where
  "proposals scoreOf T columns catalog =
     sort_key (\<lambda>p. - matchConfidence (snd p))
       (concat (map (\<lambda>(i, column).
                  (case bestCandidate scoreOf catalog column of
                     None \<Rightarrow> []
                   | Some c \<Rightarrow> if T < matchConfidence c then [(i, c)] else []))
          (enumerate 0 columns)))"

text \<open>
  Modelled from the spec: step 3, the walk over the sorted proposals. A proposal is
  accepted only if its column and its field are both unassigned, that is, named by no
  proposal accepted so far.
\<close>

fun walk :: "(nat \<times> CandidateMatch) list \<Rightarrow> (nat \<times> CandidateMatch) list
             \<Rightarrow> (nat \<times> CandidateMatch) list" where
  "walk [] accepted = accepted"
| "walk (p # ps) accepted =
     (if columnName (snd p) \<notin> set (map (columnName \<circ> snd) accepted)
         \<and> fieldId (snd p) \<notin> set (map (fieldId \<circ> snd) accepted)
      then walk ps (accepted @ [p])
      else walk ps accepted)"

text \<open>
  Modelled from the spec: step 4 and the result of \<open>resolve\<close>, one entry per column in
  column order. A column without an accepted proposal is unmapped and carries the
  confidence of its best candidate, or 0 when it has none.
\<close>

definition resolveEntry ::
  "scoring \<Rightarrow> FieldDefinition list \<Rightarrow> (nat \<times> CandidateMatch) list \<Rightarrow> nat \<times> RawColumn
   \<Rightarrow> ColumnMapping" where
  "resolveEntry scoreOf catalog accepted ic =
     (case find (\<lambda>p. fst p = fst ic) accepted of
        Some p \<Rightarrow> \<lparr>sourceColumn = name (snd ic), businessField = Some (fieldId (snd p)),
                   mapped = True, confidence = matchConfidence (snd p)\<rparr>
      | None \<Rightarrow> \<lparr>sourceColumn = name (snd ic), businessField = None, mapped = False,
                 confidence = (case bestCandidate scoreOf catalog (snd ic) of
                                 None \<Rightarrow> 0
                               | Some c \<Rightarrow> matchConfidence c)\<rparr>)"

text \<open>
  Modelled from the spec: \<open>resolve(columns, catalog)\<close> (section 4.3), with the scoring
  and the acceptance threshold as parameters. It is a total function: no input makes it
  fail.
\<close>

definition resolve ::
  "scoring \<Rightarrow> rat \<Rightarrow> RawColumn list \<Rightarrow> FieldDefinition list \<Rightarrow> ColumnMapping list" where
  "resolve scoreOf T columns catalog =
     map (resolveEntry scoreOf catalog (walk (proposals scoreOf T columns catalog) []))
       (enumerate 0 columns)"

text \<open>
  Modelled from the spec: the invariant of section 3. The mapped entries form a
  bijection: no source column and no business field occurs twice among them.
\<close>

definition bijectiveOnMapped :: "ColumnMapping list \<Rightarrow> bool" where
  "bijectiveOnMapped ms =
     (distinct (map sourceColumn (filter mapped ms))
      \<and> distinct (map businessField (filter mapped ms)))"

text \<open>
  Modelled from the spec: \<open>override(columnName, fieldId | none)\<close> (section 4.3). It
  involves no scoring and returns the updated mapping for every input. The named column
  takes the field; any other entry holding the field is unassigned. The spec gives no
  confidence for an overridden entry: the confidences are left as they were.
\<close>

definition override :: "ColumnMapping list \<Rightarrow> string \<Rightarrow> string option \<Rightarrow> ColumnMapping list" where
  "override ms column target =
     (case target of
        None \<Rightarrow>
          map (\<lambda>m. if sourceColumn m = column
                    then m\<lparr>businessField := None, mapped := False\<rparr> else m) ms
      | Some f \<Rightarrow>
          map (\<lambda>m. if sourceColumn m = column
                    then m\<lparr>businessField := Some f, mapped := True\<rparr>
                    else if businessField m = Some f
                    then m\<lparr>businessField := None, mapped := False\<rparr>
                    else m) ms)"

section \<open>The metrics aggregator of the specification\<close>

text \<open>Modelled from the spec: \<open>NormalizationError\<close> (section 4.4).\<close>

record NormalizationError =
  reason :: string
  rawValue :: jsval
  wanted :: ExpectedType

text \<open>
  Modelled from the spec: what the aggregator of section 4.5 is given besides the
  dataset. The normalizer of section 4.4 yields a number or fails; the spec names
  neither the fields the revenue and profit totals are taken from nor the formula of the
  time-bucketed growth rates, so they are parameters.
\<close>

record Aggregator =
  normalize :: "jsval \<Rightarrow> ExpectedType \<Rightarrow> NormalizationError + rat"
  revenueField :: string
  profitField :: string
  bucketedGrowth :: "ProcessedDataset \<Rightarrow> ColumnMapping \<Rightarrow> GrowthRates"

text \<open>Modelled from the spec: \<open>lookup(fieldId)\<close> of the catalog (section 4.1).\<close>

definition lookup :: "FieldDefinition list \<Rightarrow> string \<Rightarrow> FieldDefinition option" where
  "lookup catalog f = find (\<lambda>d. ident d = f) catalog"

text \<open>
  Modelled from the spec: the raw cells of the column mapped to a field, over all rows
  (the accessor \<open>valuesFor\<close> of section 9, before normalization).
\<close>

definition valuesFor :: "ProcessedDataset \<Rightarrow> string \<Rightarrow> jsval list" where
  "valuesFor ds f =
     (case find (\<lambda>m. mapped m \<and> businessField m = Some f) (mappings ds) of
        None \<Rightarrow> []
      | Some m \<Rightarrow> map (\<lambda>r. rowGet r (sourceColumn m)) (data ds))"

text \<open>
  Modelled from the spec: the value of a cell in a total; a cell that fails to normalize
  counts as 0 (section 4.5).
\<close>

definition cellValue :: "Aggregator \<Rightarrow> ExpectedType \<Rightarrow> jsval \<Rightarrow> rat" where
  "cellValue A ty v = (case normalize A v ty of Inl e \<Rightarrow> 0 | Inr q \<Rightarrow> q)"

text \<open>Modelled from the spec: a total of section 4.5, as a Number value.\<close>

definition sumField :: "Aggregator \<Rightarrow> ProcessedDataset \<Rightarrow> string \<Rightarrow> jsnum" where
  "sumField A ds f = Number_value (sum_list (map (cellValue A TCurrency) (valuesFor ds f)))"

text \<open>Modelled from the spec: the skipped-cell count of section 4.5.\<close>

definition skippedCells :: "Aggregator \<Rightarrow> ProcessedDataset \<Rightarrow> string \<Rightarrow> nat" where
  "skippedCells A ds f =
     length (filter (\<lambda>v. case normalize A v TCurrency of Inl e \<Rightarrow> True | Inr q \<Rightarrow> False)
               (valuesFor ds f))"

text \<open>Modelled from the spec: a ratio that is a defined 0 when the denominator is 0.\<close>

definition ratio :: "jsnum \<Rightarrow> jsnum \<Rightarrow> jsnum" where
  "ratio a b = (if b = Fin 0 then Fin 0 else js_div a b)"

text \<open>Modelled from the spec: the first mapped entry whose field has the date type.\<close>

definition dateMapping :: "FieldDefinition list \<Rightarrow> ColumnMapping list \<Rightarrow> ColumnMapping option" where
  "dateMapping catalog ms =
     find (\<lambda>m. mapped m \<and>
               (case businessField m of
                  None \<Rightarrow> False
                | Some f \<Rightarrow> (case lookup catalog f of
                               None \<Rightarrow> False
                             | Some d \<Rightarrow> expectedType d = TDate))) ms"

text \<open>Modelled from the spec: the growth rates reported without a date field, all 0.\<close>

definition zeroGrowth :: GrowthRates where
  "zeroGrowth = \<lparr>monthly = Fin 0, quarterly = Fin 0, yearly = Fin 0\<rparr>"

text \<open>
  Modelled from the spec: \<open>aggregate\<close> (section 4.5). The profit margin is total profit
  over total revenue, 0 when the revenue is 0; the growth rates are bucketed by the
  mapped date field and are 0 when none is mapped.
\<close>

definition aggregate :: "Aggregator \<Rightarrow> FieldDefinition list \<Rightarrow> ProcessedDataset \<Rightarrow> Metrics" where
  "aggregate A catalog ds =
     (let revenue = sumField A ds (revenueField A);
          profit = sumField A ds (profitField A);
          count = Fin (of_nat (length (data ds)))
      in \<lparr>totalRevenue = revenue,
          totalProfit = profit,
          totalTransactions = count,
          avgOrderValue = ratio revenue count,
          profitMargin = ratio profit revenue,
          growthRates = (case dateMapping catalog (mappings ds) of
                           None \<Rightarrow> zeroGrowth
                         | Some m \<Rightarrow> bucketedGrowth A ds m)\<rparr>)"

section \<open>Example data\<close>

text \<open>A one-row upload whose revenue cell is the number 0.\<close>

definition zeroRevenueUpload :: ProcessedDataset where
  "zeroRevenueUpload =
     \<lparr>fileName = ''sales.csv'', rowCount = 1,
      data = [[(''amount'', JNum (Fin 0))]],
      mappings = [\<lparr>sourceColumn = ''amount'', businessField = Some ''Revenue'',
                   mapped = True, confidence = 1\<rparr>]\<rparr>"



text \<open>A catalog of two fields, and a normalizer that accepts finite numbers only.\<close>

definition sampleCatalog :: "FieldDefinition list" where
  "sampleCatalog =
     [\<lparr>ident = ''Revenue'', displayName = ''Revenue'', category = ''financial'',
       expectedType = TCurrency, aliases = [''sales''], keywordPatterns = [''amount'']\<rparr>,
      \<lparr>ident = ''Order Date'', displayName = ''Order Date'', category = ''operational'',
       expectedType = TDate, aliases = [''date''], keywordPatterns = [''date'']\<rparr>]"

definition sampleAggregator :: Aggregator where
  "sampleAggregator =
     \<lparr>normalize = (\<lambda>v ty. case v of
                      JNum (Fin q) \<Rightarrow> Inr q
                    | _ \<Rightarrow> Inl \<lparr>reason = ''unparseable'', rawValue = v, wanted = ty\<rparr>),
      revenueField = ''Revenue'', profitField = ''Profit'',
      bucketedGrowth = (\<lambda>ds m. \<lparr>monthly = Fin 1, quarterly = Fin 1, yearly = Fin 1\<rparr>)\<rparr>"

text \<open>
  Three columns of an upload, and a scoring under which \<open>amount\<close> and \<open>total\<close> both
  match the revenue field best and \<open>when\<close> matches the order date.
\<close>

definition sampleColumns :: "RawColumn list" where
  "sampleColumns =
     [\<lparr>name = ''amount'', sampleValues = [JStr ''$100.00'']\<rparr>,
      \<lparr>name = ''total'', sampleValues = [JStr ''$250.50'']\<rparr>,
      \<lparr>name = ''when'', sampleValues = [JStr ''02/29/2024'']\<rparr>]"

definition sampleScoring :: scoring where
  "sampleScoring column f =
     (if name column = ''amount'' \<and> ident f = ''Revenue'' then (9 / 10, [nameMatch, typeMatch])
      else if name column = ''total'' \<and> ident f = ''Revenue'' then (7 / 10, [keywordMatch])
      else if name column = ''when'' \<and> ident f = ''Order Date'' then (4 / 5, [aliasMatch])
      else (1 / 10, []))"

text \<open>A mapping in which \<open>amount\<close> holds the revenue field and \<open>total\<close> is unmapped.\<close>

definition sampleMapping :: "ColumnMapping list" where
  "sampleMapping =
     [\<lparr>sourceColumn = ''amount'', businessField = Some ''Revenue'', mapped = True,
       confidence = 9 / 10\<rparr>,
      \<lparr>sourceColumn = ''total'', businessField = None, mapped = False,
       confidence = 7 / 10\<rparr>]"

section \<open>Navigation gating\<close>

text \<open>
  Claim C9. The upload section is always accessible; the mapping section is accessible
  exactly when a processed dataset exists; each of the seven analysis sections is
  accessible exactly when a processed dataset exists and at least five of its mappings
  have \<open>mapped = true\<close>.
\<close>

theorem isAccessible_gating:
  "isAccessible pd SecUpload
   \<and> (isAccessible pd SecMapping \<longleftrightarrow> pd \<noteq> None)
   \<and> (s \<noteq> SecUpload \<and> s \<noteq> SecMapping \<longrightarrow>
        (isAccessible pd s \<longleftrightarrow>
           (\<exists>d. pd = Some d \<and> 5 \<le> length (filter mapped (mappings d)))))"
  by (cases pd) (simp_all add: isAccessible_def)

theorem isAccessible_gating_witness:
  "SecSummary \<noteq> SecUpload \<and> SecSummary \<noteq> SecMapping
   \<and> isAccessible
        (Some \<lparr>fileName = ''sales.csv'', rowCount = 0, data = [],
               mappings = map (\<lambda>(c, f). \<lparr>sourceColumn = c, businessField = Some f,
                                           mapped = True, confidence = 1\<rparr>)
                 [(''amount'', ''Revenue''), (''cust'', ''Customer ID''),
                  (''date'', ''Order Date''), (''qty'', ''Quantity''),
                  (''sku'', ''Product ID'')]\<rparr>)
        SecSummary
   \<and> \<not> isAccessible
        (Some \<lparr>fileName = ''sales.csv'', rowCount = 0, data = [],
               mappings = [\<lparr>sourceColumn = ''amount'', businessField = Some ''Revenue'',
                            mapped = True, confidence = 1\<rparr>]\<rparr>)
        SecSummary"
  using isAccessible_gating
    [of "Some \<lparr>fileName = ''sales.csv'', rowCount = 0, data = [],
               mappings = map (\<lambda>(c, f). \<lparr>sourceColumn = c, businessField = Some f,
                                           mapped = True, confidence = 1\<rparr>)
                 [(''amount'', ''Revenue''), (''cust'', ''Customer ID''),
                  (''date'', ''Order Date''), (''qty'', ''Quantity''),
                  (''sku'', ''Product ID'')]\<rparr>" SecSummary]
    isAccessible_gating
    [of "Some \<lparr>fileName = ''sales.csv'', rowCount = 0, data = [],
               mappings = [\<lparr>sourceColumn = ''amount'', businessField = Some ''Revenue'',
                            mapped = True, confidence = 1\<rparr>]\<rparr>" SecSummary]
  by simp

text \<open>
  A click changes the section only when the target is accessible, so the current
  section stays inside the accessible ones once it is.
\<close>

lemma navClick_accessible:
  "navClick pd cur s \<noteq> cur \<Longrightarrow> isAccessible pd (navClick pd cur s)"
  by (auto simp: navClick_def handleSectionChange_def split: if_splits)

section \<open>Number values and parsing\<close>

lemma overflow_bound_large: "(2::rat) ^ 1023 < overflow_bound"
  by (simp add: overflow_bound_def)

text \<open>The search for the binary exponent finds it.\<close>

lemma binade_spec:
  "2 powi (- int fuel) \<le> q \<Longrightarrow> q < 2 powi (int fuel)
   \<Longrightarrow> 2 powi (binade fuel q) \<le> q \<and> q < 2 powi (binade fuel q + 1)"
proof (induction fuel arbitrary: q)
  case 0
  then show ?case by simp
next
  case (Suc fuel)
  show ?case
  proof (cases "2 \<le> q")
    case True
    have "2 powi (- int fuel) \<le> q / 2"
    proof -
      have "(2::rat) powi (- int fuel) \<le> 1"
        by (simp add: power_int_minus_divide)
      with True show ?thesis by simp
    qed
    moreover have "q / 2 < 2 powi (int fuel)"
      using Suc.prems(2) by (simp add: power_int_add)
    ultimately have "2 powi (binade fuel (q / 2)) \<le> q / 2
        \<and> q / 2 < 2 powi (binade fuel (q / 2) + 1)"
      by (rule Suc.IH)
    with True show ?thesis
      by (simp add: power_int_add field_simps)
  next
    case nt: False
    show ?thesis
    proof (cases "q < 1")
      case True
      show ?thesis
      proof (cases fuel)
        case 0
        with Suc.prems True nt show ?thesis by simp
      next
        case (Suc f)
        have "2 powi (- int fuel) \<le> q * 2"
          using Suc.prems(1) by (simp add: power_int_diff power_int_minus_divide field_simps)
        moreover have "q * 2 < 2 powi (int fuel)"
        proof -
          have "(2::rat) ^ 1 \<le> 2 ^ fuel"
            using Suc by (intro power_increasing) simp_all
          with True show ?thesis by simp
        qed
        ultimately have "2 powi (binade fuel (q * 2)) \<le> q * 2
            \<and> q * 2 < 2 powi (binade fuel (q * 2) + 1)"
          by (rule Suc.IH)
        with True nt show ?thesis
          by (simp add: power_int_add power_int_diff field_simps)
      qed
    next
      case False
      with nt show ?thesis by simp
    qed
  qed
qed


lemma powi_less_cancel: "(2::rat) powi a < 2 powi b \<Longrightarrow> a < b"
proof (rule ccontr)
  assume lt: "(2::rat) powi a < 2 powi b" and "\<not> a < b"
  then have "b \<le> a" by simp
  then have "(2::rat) powi b \<le> 2 powi a"
    by (rule power_int_increasing) simp
  with lt show False by simp
qed

lemma binade_unique:
  assumes "2 powi e \<le> q" "q < 2 powi (e + 1)" "- 1100 \<le> e" "e < 1100"
  shows "binade 1100 q = e"
proof -
  have "(2::rat) powi (- 1100) \<le> 2 powi e"
    using assms(3) by (intro power_int_increasing) simp_all
  with assms(1) have lo: "2 powi (- int 1100) \<le> q" by simp
  have "(2::rat) powi (e + 1) \<le> 2 powi 1100"
    using assms(4) by (intro power_int_increasing) simp_all
  with assms(2) have hi: "q < 2 powi (int 1100)" by simp
  from binade_spec [OF lo hi]
  have b: "2 powi (binade 1100 q) \<le> q" "q < 2 powi (binade 1100 q + 1)" by simp_all
  from b(1) assms(2) have "binade 1100 q < e + 1"
    by (intro powi_less_cancel) simp
  moreover from assms(1) b(2) have "e < binade 1100 q + 1"
    by (intro powi_less_cancel) simp
  ultimately show ?thesis by simp
qed

lemma roundHalfEven_near:
  assumes "\<bar>x - of_int n\<bar> < 1 / 2 \<or> (\<bar>x - of_int n\<bar> = 1 / 2 \<and> even n)"
  shows "roundHalfEven x = n"
proof -
  consider "of_int n \<le> x" "x - of_int n < 1 / 2" | "x < of_int n" "of_int n - x < 1 / 2"
    | "x - of_int n = 1 / 2" "even n" | "of_int n - x = 1 / 2" "even n"
    using assms by (cases "of_int n \<le> x") auto
  then show ?thesis
  proof cases
    case 1
    then have "\<lfloor>x\<rfloor> = n" by (simp add: floor_eq_iff; linarith)
    with 1 show ?thesis by (simp add: roundHalfEven_def Let_def)
  next
    case 2
    then have f: "\<lfloor>x\<rfloor> = n - 1" by (simp add: floor_eq_iff; linarith)
    with 2 have "1 / 2 < x - of_int \<lfloor>x\<rfloor>" by (simp; linarith)
    with f show ?thesis by (simp add: roundHalfEven_def Let_def)
  next
    case 3
    then have "\<lfloor>x\<rfloor> = n" by (simp add: floor_eq_iff; linarith)
    with 3 show ?thesis by (simp add: roundHalfEven_def Let_def)
  next
    case 4
    then have f: "\<lfloor>x\<rfloor> = n - 1" by (simp add: floor_eq_iff; linarith)
    with 4 have d: "x - of_int (n - 1) = 1 / 2" by (simp; linarith)
    from 4 have "odd (n - 1)" by simp
    with d show ?thesis
      unfolding roundHalfEven_def Let_def f by simp
  qed
qed

lemma roundHalfEven_int: "roundHalfEven (of_int z) = z"
  by (rule roundHalfEven_near) simp

lemma round64_near:
  assumes "2 powi e \<le> a" "a < 2 powi (e + 1)" "- 1022 \<le> e" "e \<le> 1023"
    and "\<bar>a / 2 powi (e - 52) - of_int n\<bar> < 1 / 2
         \<or> (\<bar>a / 2 powi (e - 52) - of_int n\<bar> = 1 / 2 \<and> even n)"
  shows "round64 a = of_int n * 2 powi (e - 52)"
proof -
  have "binade 1100 a = e"
    using assms(1-4) by (intro binade_unique) simp_all
  with assms(3,5) show ?thesis
    by (simp add: round64_def Let_def max_def roundHalfEven_near)
qed

lemma round64_exact:
  assumes "0 < m" "m < 2 ^ 53" "k \<le> 1074"
  shows "round64 (of_nat m / 2 ^ k) = of_nat m / 2 ^ k"
proof -
  define a :: rat where "a = of_nat m / 2 ^ k"
  define e where "e = max (binade 1100 a) (- 1022)"
  have apos: "0 < a" using assms(1) by (simp add: a_def)
  have alt: "a < 2 powi (53 - int k)"
  proof -
    have "(of_nat m :: rat) < 2 ^ 53"
      using assms(2) by (metis of_nat_less_iff of_nat_numeral of_nat_power)
    then have "of_nat m / 2 ^ k < (2::rat) ^ 53 / 2 ^ k"
      by (simp add: divide_strict_right_mono)
    then show ?thesis
      by (simp add: a_def power_int_diff)
  qed
  have lo: "2 powi (- int 1100) \<le> a"
  proof -
    have "(1::rat) \<le> of_nat m" using assms(1) by simp
    then have "1 / 2 ^ k \<le> a"
      by (simp add: a_def divide_right_mono)
    moreover have "(2::rat) powi (- int 1100) \<le> 2 powi (- int k)"
      using assms(3) by (intro power_int_increasing) simp_all
    moreover have "(2::rat) powi (- int k) = 1 / 2 ^ k"
      by (simp only: power_int_minus_divide power_int_of_nat)
    ultimately show ?thesis
      by (simp only: order_trans)
  qed
  have hi: "a < 2 powi (int 1100)"
  proof -
    have "(2::rat) powi (53 - int k) \<le> 2 powi (int 1100)"
      by (intro power_int_increasing) simp_all
    with alt show ?thesis by simp
  qed
  from binade_spec [OF lo hi] have "2 powi (binade 1100 a) \<le> a" by simp
  with alt have "(2::rat) powi (binade 1100 a) < 2 powi (53 - int k)" by simp
  then have "binade 1100 a < 53 - int k" by (rule powi_less_cancel)
  with assms(3) have ele: "e \<le> 52 - int k" by (simp add: e_def)
  define j where "j = nat (52 - int k - e)"
  have je: "int j = 52 - int k - e" using ele by (simp add: j_def)
  have "a / 2 powi (e - 52) = of_nat m * 2 powi (- int k) * 2 powi (52 - e)"
    by (simp add: a_def power_int_minus_divide power_int_diff field_simps)
  also have "\<dots> = of_nat m * 2 powi (int j)"
  proof -
    have "(2::rat) powi (- int k + (52 - e)) = 2 powi (- int k) * 2 powi (52 - e)"
      by (rule power_int_add) simp
    moreover have "- int k + (52 - e) = int j" using je by simp
    ultimately have "(2::rat) powi (- int k) * 2 powi (52 - e) = 2 powi (int j)"
      by (simp only:)
    then show ?thesis by (simp only: mult.assoc)
  qed
  finally have q: "a / 2 powi (e - 52) = of_int (int (m * 2 ^ j))"
    by simp
  have "round64 a = of_int (roundHalfEven (a / 2 powi (e - 52))) * 2 powi (e - 52)"
    by (simp add: round64_def Let_def e_def)
  also have "\<dots> = a / 2 powi (e - 52) * 2 powi (e - 52)"
    unfolding q roundHalfEven_int by simp
  also have "\<dots> = a" by simp
  finally show ?thesis by (simp add: a_def)
qed

text \<open>A value with a mantissa below \<open>2^53\<close> and an exponent from -1074 on is not rounded.\<close>

lemma exact_in_range:
  assumes "0 < m" "m < 2 ^ 53" "k \<le> 1074" and a: "a = of_nat m / 2 ^ k"
  shows "0 < a \<and> \<not> overflow_bound \<le> a \<and> \<not> a \<le> underflow_bound \<and> round64 a = a"
proof -
  have apos: "0 < a" using assms(1) by (simp add: a)
  have "(of_nat m :: rat) < 2 ^ 53"
    using assms(2) by (metis of_nat_less_iff of_nat_numeral of_nat_power)
  moreover have "a \<le> of_nat m"
    by (simp add: a divide_le_eq mult_le_cancel_left1)
  ultimately have "a < 2 ^ 1023" by simp
  with overflow_bound_large have hi: "\<not> overflow_bound \<le> a"
    by simp
  have "(2::rat) ^ k < 2 ^ 1075"
    using assms(3) by (intro power_strict_increasing) simp_all
  then have "(1::rat) / 2 ^ 1075 < 1 / 2 ^ k"
    by (intro divide_strict_left_mono) simp_all
  moreover have "1 / 2 ^ k \<le> a"
    using assms(1) by (simp add: a divide_right_mono)
  ultimately have "underflow_bound < a"
    by (simp only: underflow_bound_def less_le_trans)
  with apos hi round64_exact [OF assms(1-3)] show ?thesis
    by (simp add: a)
qed

lemma Number_value_pos_exact:
  assumes "0 < m" "m < 2 ^ 53" "k \<le> 1074"
  shows "Number_value (of_nat m / 2 ^ k) = Fin (of_nat m / 2 ^ k)"
  using exact_in_range [OF assms refl] by (simp add: Number_value_def)


lemma Number_value_zero: "Number_value 0 = Fin 0"
  by (simp add: Number_value_def overflow_bound_def underflow_bound_def)

text \<open>Integers below \<open>2^53\<close> are not rounded.\<close>

lemma Number_value_numeral:
  "(numeral n :: nat) < 2 ^ 53 \<Longrightarrow> Number_value (numeral n) = Fin (numeral n)"
  using Number_value_pos_exact [of "numeral n" 0] by simp


text \<open>
  A value in the normal range that is within half a unit in the last place of a
  multiple of that unit rounds to the multiple; at exactly half a unit, to the even one.
\<close>

lemma near_in_range:
  assumes "2 powi e \<le> a" "a < 2 powi (e + 1)" "- 1022 \<le> e" "e \<le> 1022"
    and "\<bar>a / 2 powi (e - 52) - of_int n\<bar> < 1 / 2
         \<or> (\<bar>a / 2 powi (e - 52) - of_int n\<bar> = 1 / 2 \<and> even n)"
    and "r = of_int n * 2 powi (e - 52)"
  shows "0 < a \<and> \<not> overflow_bound \<le> a \<and> \<not> a \<le> underflow_bound \<and> round64 a = r"
proof -
  have "(0::rat) < 2 powi e" by simp
  with assms(1) have apos: "0 < a" by linarith
  have "(2::rat) powi (e + 1) \<le> 2 powi 1023"
    using assms(4) by (intro power_int_increasing) simp_all
  with assms(2) have "a < 2 ^ 1023" by simp
  with overflow_bound_large have hi: "\<not> overflow_bound \<le> a"
    by simp
  have "(2::rat) powi (- 1022) \<le> 2 powi e"
    using assms(3) by (intro power_int_increasing) simp_all
  moreover have "underflow_bound < 2 powi (- 1022)"
    by (simp add: underflow_bound_def power_int_minus_divide)
  ultimately have lo: "\<not> a \<le> underflow_bound"
    using assms(1) by simp
  have "round64 a = r"
    using assms by (simp add: round64_near)
  with hi lo apos show ?thesis
    by simp
qed

lemma Number_value_pos_near:
  assumes "2 powi e \<le> a" "a < 2 powi (e + 1)" "- 1022 \<le> e" "e \<le> 1022"
    and "\<bar>a / 2 powi (e - 52) - of_int n\<bar> < 1 / 2
         \<or> (\<bar>a / 2 powi (e - 52) - of_int n\<bar> = 1 / 2 \<and> even n)"
    and "r = of_int n * 2 powi (e - 52)"
  shows "Number_value a = Fin r"
  using near_in_range [OF assms] by (simp add: Number_value_def)


lemma isNaN_simps:
  "isNaN NaN" "\<not> isNaN (Fin q)" "\<not> isNaN PInf" "\<not> isNaN NInf"
  by (simp_all add: isNaN_def)

lemma is_finite_simps:
  "is_finite (Fin q)" "\<not> is_finite NaN" "\<not> is_finite PInf" "\<not> is_finite NInf"
  by (simp_all add: is_finite_def)

lemma Number_value_not_NaN: "\<not> isNaN (Number_value q)"
  by (simp add: Number_value_def isNaN_def)

text \<open>\<open>parseFloat\<close> yields NaN exactly on the strings that do not begin like a literal.\<close>

lemma parseFloat_NaN_iff:
  "isNaN (parseFloat s) \<longleftrightarrow> \<not> numericStart (dropWhile isWhiteSpace s)"
proof -
  obtain neg u where su: "splitSign (dropWhile isWhiteSpace s) = (neg, u)"
    by (cases "splitSign (dropWhile isWhiteSpace s)")
  show ?thesis
  proof (cases "take 8 u = ''Infinity''")
    case True
    then show ?thesis
      by (simp add: parseFloat_def numericStart_def su isNaN_def)
  next
    case False
    obtain fp r2 where fr: "fractionPart (dropWhile isDigit u) = (fp, r2)"
      by (cases "fractionPart (dropWhile isDigit u)")
    have "(takeWhile isDigit u = [] \<and> fp = []) \<longleftrightarrow>
          \<not> (case u of [] \<Rightarrow> False
              | c # r \<Rightarrow> isDigit c \<or> (c = CHR ''.'' \<and> (case r of [] \<Rightarrow> False | d # _ \<Rightarrow> isDigit d)))"
    proof (cases u)
      case Nil
      with fr show ?thesis by simp
    next
      case (Cons c r)
      show ?thesis
      proof (cases "isDigit c")
        case True
        with Cons show ?thesis by simp
      next
        case nd: False
        with Cons fr have "fp = (if c = CHR ''.'' then takeWhile isDigit r else [])"
          by (auto split: if_splits)
        with Cons nd show ?thesis
          by (cases r) (auto simp: takeWhile_eq_Nil_iff)
      qed
    qed
    with False show ?thesis
      by (simp add: parseFloat_def numericStart_def su fr Number_value_not_NaN isNaN_simps
          Let_def)
  qed
qed

lemma cleaned_no_space: "dropWhile isWhiteSpace (cleaned s) = cleaned s"
proof (cases "cleaned s")
  case Nil
  then show ?thesis by simp
next
  case (Cons c r)
  then have "c \<in> set (cleaned s)" by simp
  then have "\<not> isWhiteSpace c" by (simp add: cleaned_def stripChar_def)
  with Cons show ?thesis by simp
qed

lemma toNumber_string:
  "toNumber (JStr s) = (if numericStart (cleaned s) then parseFloat (cleaned s) else Fin 0)"
  using parseFloat_NaN_iff [of "cleaned s"]
  by (simp add: toNumber_def Let_def cleaned_no_space)

lemma toNumber_string_not_NaN: "\<not> isNaN (toNumber (JStr s))"
  by (simp add: toNumber_def Let_def isNaN_simps)

lemma cleaned_digits:
  assumes "\<forall>c\<in>set ds. isDigit c"
  shows "cleaned (ds @ ''%'') = ds"
proof -
  have "\<And>c. isDigit c \<Longrightarrow> \<not> stripChar c"
    by (auto simp: isDigit_def stripChar_def isWhiteSpace_def)
  with assms have "filter (\<lambda>c. \<not> stripChar c) ds = ds"
    by (induction ds) auto
  then show ?thesis
    by (simp add: cleaned_def stripChar_def)
qed

lemma parseFloat_digits:
  assumes "ds \<noteq> []" "\<forall>c\<in>set ds. isDigit c"
  shows "parseFloat ds = Number_value (of_nat (digitsVal ds))"
proof -
  obtain c r where ds: "ds = c # r" using assms(1) by (cases ds) auto
  with assms(2) have dc: "isDigit c" by simp
  then have nws: "\<not> isWhiteSpace c" and nsign: "c \<noteq> CHR ''-''" "c \<noteq> CHR ''+''"
    and ninf: "c \<noteq> CHR ''I''"
    by (auto simp: isDigit_def isWhiteSpace_def)
  have tw: "takeWhile isDigit ds = ds" "dropWhile isDigit ds = []"
    using assms(2) by (simp_all add: takeWhile_eq_all_conv)
  have ss: "splitSign (dropWhile isWhiteSpace ds) = (False, ds)"
    using ds nws nsign by simp
  have ni: "take 8 ds \<noteq> ''Infinity''"
    using ds ninf by (simp add: numeral_eq_Suc)
  have d0: "digitsVal [] = 0"
    by (simp add: digitsVal_def)
  show ?thesis
    using assms(1) by (simp add: parseFloat_def pow10_def ss ni tw d0)
qed

text \<open>Evaluation of the coercion on the strings used below.\<close>

lemma toNumber_currency_example: "toNumber (JStr ''$1,200.50'') = Fin (2401 / 2)"
proof -
  have c: "cleaned ''$1,200.50'' = ''1200.50''"
    by (simp add: cleaned_def stripChar_def isWhiteSpace_def)
  have nv: "Number_value (2401 / 2) = Fin (2401 / 2)"
    using Number_value_pos_exact [of 2401 1] by simp
  have "parseFloat ''1200.50'' = Fin (2401 / 2)"
    by (simp add: parseFloat_def isWhiteSpace_def isDigit_def digitsVal_def digitVal_def
        pow10_def nv)
  with c show ?thesis
    by (simp add: toNumber_def isNaN_simps)
qed

lemma toNumber_percent_example: "toNumber (JStr ''12%'') = Fin 12"
proof -
  have c: "cleaned ''12%'' = ''12''"
    by (simp add: cleaned_def stripChar_def isWhiteSpace_def)
  have "parseFloat ''12'' = Fin 12"
    by (simp add: parseFloat_def isWhiteSpace_def isDigit_def digitsVal_def digitVal_def
        pow10_def Number_value_numeral)
  with c show ?thesis
    by (simp add: toNumber_def isNaN_simps)
qed

lemma toNumber_Infinity_example: "toNumber (JStr ''Infinity'') = PInf"
  by (simp add: toNumber_def cleaned_def stripChar_def isWhiteSpace_def parseFloat_def
      isNaN_simps)

lemma toNumber_abc_example: "toNumber (JStr ''abc'') = Fin 0"
  by (simp add: toNumber_def cleaned_def stripChar_def isWhiteSpace_def parseFloat_def
      isDigit_def isNaN_simps)

section \<open>The coercion on unparseable input\<close>

text \<open>
  Claim C3 as stated (unparseable input fails with an error instead of yielding a
  substitute value) does not hold of the coercion: \<open>toNumber("abc")\<close> returns the
  number 0.
\<close>

theorem toNumber_unparseable_counterexample:
  "toNumber (JStr ''abc'') = Fin 0 \<and> \<not> numericStart (cleaned ''abc'')"
  using toNumber_abc_example
  by (simp add: numericStart_def cleaned_def stripChar_def isWhiteSpace_def isDigit_def)

text \<open>
  Claim C3, amended. A raw value that cannot be read as a number is coerced to the
  substitute value 0, and no error is raised: this holds for every string whose
  stripped text does not begin like a numeric literal, and for every value that is
  neither a number nor a string.
\<close>

theorem toNumber_unparseable_zero:
  "(case v of JNum n \<Rightarrow> False | JStr s \<Rightarrow> \<not> numericStart (cleaned s) | _ \<Rightarrow> True)
   \<Longrightarrow> toNumber v = Fin 0"
  by (cases v) (simp_all add: toNumber_string, simp_all add: toNumber_def)

theorem toNumber_unparseable_zero_witness:
  "(case JStr ''n/a'' of JNum n \<Rightarrow> False | JStr s \<Rightarrow> \<not> numericStart (cleaned s) | _ \<Rightarrow> True)
   \<and> toNumber (JStr ''n/a'') = Fin 0"
proof -
  have h: "case JStr ''n/a'' of JNum n \<Rightarrow> False | JStr s \<Rightarrow> \<not> numericStart (cleaned s)
           | _ \<Rightarrow> True"
    by (simp add: numericStart_def cleaned_def stripChar_def isWhiteSpace_def isDigit_def)
  show ?thesis
    using h toNumber_unparseable_zero [OF h] by simp
qed

section \<open>Percentages and currency amounts\<close>

text \<open>
  Claim C4 as stated (a percentage string is divided by 100, so that "12%" gives 0.12)
  does not hold of the coercion: \<open>toNumber("12%")\<close> is 12.
\<close>

theorem toNumber_percent_counterexample:
  "toNumber (JStr ''12%'') = Fin 12 \<and> toNumber (JStr ''12%'') \<noteq> Fin (12 / 100)"
  using toNumber_percent_example by simp

lemma cleaned_explicit:
  "cleaned s =
     filter (\<lambda>c. c \<notin> set [CHR ''$'', CHR '','', CHR ''%'', CHR 0x09, CHR 0x0A, CHR 0x0B,
                              CHR 0x0C, CHR 0x0D, CHR 0x20, CHR 0xA0]) s"
  unfolding cleaned_def by (rule filter_cong) (auto simp: stripChar_def isWhiteSpace_def)

lemma parseFloat_decimal:
  assumes "ip \<noteq> []" "\<forall>c\<in>set ip. isDigit c" "\<forall>c\<in>set fp. isDigit c"
  shows "parseFloat (ip @ ''.'' @ fp) =
           Number_value (of_nat (digitsVal ip) + of_nat (digitsVal fp) / 10 ^ length fp)"
proof -
  define t where "t = ip @ ''.'' @ fp"
  obtain c r where ip: "ip = c # r" using assms(1) by (cases ip) auto
  with assms(2) have dc: "isDigit c" by simp
  then have nws: "\<not> isWhiteSpace c" and nsign: "c \<noteq> CHR ''-''" "c \<noteq> CHR ''+''"
    and ninf: "c \<noteq> CHR ''I''"
    by (auto simp: isDigit_def isWhiteSpace_def)
  have nd: "\<not> isDigit CHR ''.''"
    by (simp add: isDigit_def)
  have tw: "takeWhile isDigit t = ip"
    using assms(2) nd by (simp add: t_def takeWhile_append2)
  have fp: "takeWhile isDigit fp = fp" "dropWhile isDigit fp = []"
    using assms(3) by (simp_all add: takeWhile_eq_all_conv)
  have "dropWhile isDigit t = ''.'' @ fp"
    using assms(2) nd by (simp add: t_def dropWhile_append2)
  then have fr: "fractionPart (dropWhile isDigit t) = (fp, [])"
    by (simp add: fp)
  have ss: "splitSign (dropWhile isWhiteSpace t) = (False, t)"
    using ip nws nsign by (simp add: t_def)
  have ni: "take 8 t \<noteq> ''Infinity''"
    using ip ninf by (simp add: t_def numeral_eq_Suc)
  have "parseFloat t =
           Number_value (of_nat (digitsVal ip) + of_nat (digitsVal fp) / 10 ^ length fp)"
    using assms(1) by (simp add: parseFloat_def pow10_def ss ni tw fr)
  then show ?thesis
    by (simp only: t_def)
qed

lemma toNumber_unrecognised_examples:
  "toNumber (JStr ''(1,200.50)'') = Fin 0" "toNumber (JStr ''USD 1,200.50'') = Fin 0"
  by (simp_all add: toNumber_def cleaned_def stripChar_def isWhiteSpace_def parseFloat_def
      isDigit_def isNaN_simps)

text \<open>
  The literal is rounded to the nearest binary64 value: \<open>2^53 + 1\<close> lies halfway between
  its two neighbours and reads as \<open>2^53\<close>.
\<close>

lemma toNumber_rounds_example:
  "toNumber (JStr ''9007199254740993'') = Fin 9007199254740992"
proof -
  have nv: "Number_value 9007199254740993 = Fin 9007199254740992"
    by (rule Number_value_pos_near [where e = 53 and n = 4503599627370496]) simp_all
  have c: "cleaned ''9007199254740993'' = ''9007199254740993''"
    by (simp add: cleaned_def stripChar_def isWhiteSpace_def)
  have "parseFloat ''9007199254740993'' = Fin 9007199254740992"
    by (simp add: parseFloat_def isWhiteSpace_def isDigit_def digitsVal_def digitVal_def
        pow10_def nv)
  with c show ?thesis
    by (simp add: toNumber_def isNaN_simps)
qed

text \<open>
  Claim C4, amended. The coercion strips the percent sign and parses the decimal
  without dividing by 100: a string of digits followed by \<open>%\<close> is coerced to the Number
  value (the nearest binary64 value) of the integer the digits denote. Of a currency
  notation exactly the dollar sign, commas, white space and \<open>%\<close> are removed: a string
  that is left as digits, a point and digits is coerced to the Number value of that
  decimal, so that \<open>toNumber("$1,200.50")\<close> is 1200.50. Other currency symbols and a
  parenthesised negative are not recognised: \<open>toNumber("(1,200.50)")\<close> and
  \<open>toNumber("USD 1,200.50")\<close> are 0.
\<close>

theorem toNumber_percent_currency:
  "(ds \<noteq> [] \<and> (\<forall>c\<in>set ds. isDigit c) \<longrightarrow>
      toNumber (JStr (ds @ ''%'')) = Number_value (of_nat (digitsVal ds)))
   \<and> cleaned s =
       filter (\<lambda>c. c \<notin> set [CHR ''$'', CHR '','', CHR ''%'', CHR 0x09, CHR 0x0A, CHR 0x0B,
                                CHR 0x0C, CHR 0x0D, CHR 0x20, CHR 0xA0]) s
   \<and> (ip \<noteq> [] \<and> (\<forall>c\<in>set ip. isDigit c) \<and> (\<forall>c\<in>set fp. isDigit c)
        \<and> cleaned s = ip @ ''.'' @ fp \<longrightarrow>
      toNumber (JStr s) =
        Number_value (of_nat (digitsVal ip) + of_nat (digitsVal fp) / 10 ^ length fp))
   \<and> toNumber (JStr ''$1,200.50'') = Fin (2401 / 2)
   \<and> toNumber (JStr ''(1,200.50)'') = Fin 0
   \<and> toNumber (JStr ''USD 1,200.50'') = Fin 0"
proof -
  have a: "ds \<noteq> [] \<and> (\<forall>c\<in>set ds. isDigit c) \<longrightarrow>
      toNumber (JStr (ds @ ''%'')) = Number_value (of_nat (digitsVal ds))"
    by (simp add: toNumber_def cleaned_digits parseFloat_digits Number_value_not_NaN)
  have b: "ip \<noteq> [] \<and> (\<forall>c\<in>set ip. isDigit c) \<and> (\<forall>c\<in>set fp. isDigit c)
        \<and> cleaned s = ip @ ''.'' @ fp \<longrightarrow>
      toNumber (JStr s) =
        Number_value (of_nat (digitsVal ip) + of_nat (digitsVal fp) / 10 ^ length fp)"
  proof
    assume h: "ip \<noteq> [] \<and> (\<forall>c\<in>set ip. isDigit c) \<and> (\<forall>c\<in>set fp. isDigit c)
        \<and> cleaned s = ip @ ''.'' @ fp"
    then have "parseFloat (cleaned s) =
        Number_value (of_nat (digitsVal ip) + of_nat (digitsVal fp) / 10 ^ length fp)"
      using parseFloat_decimal [of ip fp] by simp
    then show "toNumber (JStr s) =
        Number_value (of_nat (digitsVal ip) + of_nat (digitsVal fp) / 10 ^ length fp)"
      by (simp add: toNumber_def Number_value_not_NaN)
  qed
  from a b cleaned_explicit [of s] toNumber_currency_example toNumber_unrecognised_examples
  show ?thesis by blast
qed

theorem toNumber_percent_currency_witness:
  "toNumber (JStr ''45%'') = Fin 45
   \<and> toNumber (JStr ''1 200.50 $'') = Fin (2401 / 2)
   \<and> toNumber (JStr ''$1,200.50'') = Fin (2401 / 2)"
proof -
  have h: "''45'' \<noteq> [] \<and> (\<forall>c\<in>set ''45''. isDigit c)"
    by (simp add: isDigit_def)
  have v: "Number_value (of_nat (digitsVal ''45'')) = Fin 45"
    by (simp add: digitsVal_def digitVal_def Number_value_numeral)
  have g: "''1200'' \<noteq> [] \<and> (\<forall>c\<in>set ''1200''. isDigit c) \<and> (\<forall>c\<in>set ''50''. isDigit c)
        \<and> cleaned ''1 200.50 $'' = ''1200'' @ ''.'' @ ''50''"
    by (simp add: isDigit_def cleaned_def stripChar_def isWhiteSpace_def)
  have nv: "Number_value (2401 / 2) = Fin (2401 / 2)"
    using Number_value_pos_exact [of 2401 1] by simp
  have w: "Number_value (of_nat (digitsVal ''1200'') + of_nat (digitsVal ''50'') / 10 ^ length ''50'')
        = Fin (2401 / 2)"
    by (simp add: digitsVal_def digitVal_def nv)
  note t = toNumber_percent_currency [of "''45''" "''1 200.50 $''" "''1200''" "''50''"]
  from t h v have 1: "toNumber (JStr ''45%'') = Fin 45" by simp
  from t g w have 2: "toNumber (JStr ''1 200.50 $'') = Fin (2401 / 2)" by metis
  from t have 3: "toNumber (JStr ''$1,200.50'') = Fin (2401 / 2)" by blast
  from 1 2 3 show ?thesis by blast
qed

section \<open>Totality of the coercion\<close>

text \<open>
  Claim C10 as stated (the result is always finite) does not hold: the string
  \<open>Infinity\<close> is coerced to positive infinity.
\<close>

theorem toNumber_finite_counterexample:
  "\<not> is_finite (toNumber (JStr ''Infinity''))"
  using toNumber_Infinity_example by (simp add: is_finite_simps)

text \<open>
  Claim C10, amended. The coercion returns a number for every input value: a number
  passes through unchanged (a NaN or infinite number included); a string is stripped of
  \<open>$\<close>, commas, white space and \<open>%\<close> and parsed, an unparseable one giving 0, so a
  string never yields NaN; every other value gives 0. The result is NaN only for the
  number NaN, and it is finite unless the input is a number that is not finite or a
  string whose stripped text parses to an infinity.
\<close>

theorem toNumber_total:
  "toNumber (JNum n) = n
   \<and> toNumber (JStr s) = (if numericStart (cleaned s) then parseFloat (cleaned s) else Fin 0)
   \<and> \<not> isNaN (toNumber (JStr s))
   \<and> toNumber JUndefined = Fin 0 \<and> toNumber JNull = Fin 0
   \<and> toNumber (JBool b) = Fin 0 \<and> toNumber (JObject t) = Fin 0
   \<and> (isNaN (toNumber v) \<longleftrightarrow> v = JNum NaN)
   \<and> (is_finite (toNumber v) \<longleftrightarrow>
        \<not> (\<exists>m. v = JNum m \<and> \<not> is_finite m)
        \<and> \<not> (\<exists>t. v = JStr t \<and> (parseFloat (cleaned t) = PInf \<or> parseFloat (cleaned t) = NInf)))"
proof -
  have a: "toNumber (JNum n) = n" "toNumber JUndefined = Fin 0" "toNumber JNull = Fin 0"
    "toNumber (JBool b) = Fin 0" "toNumber (JObject t) = Fin 0"
    by (simp_all add: toNumber_def)
  have b: "isNaN (toNumber v) \<longleftrightarrow> v = JNum NaN"
  proof (cases v)
    case (JNum m)
    then show ?thesis by (cases m) (simp_all add: toNumber_def isNaN_simps)
  next
    case (JStr t)
    then show ?thesis by (simp add: toNumber_string_not_NaN)
  qed (simp_all add: toNumber_def isNaN_simps)
  have c: "is_finite (toNumber v) \<longleftrightarrow>
        \<not> (\<exists>m. v = JNum m \<and> \<not> is_finite m)
        \<and> \<not> (\<exists>t. v = JStr t \<and> (parseFloat (cleaned t) = PInf \<or> parseFloat (cleaned t) = NInf))"
  proof (cases v)
    case (JNum m)
    then show ?thesis by (simp add: toNumber_def)
  next
    case (JStr t)
    then show ?thesis
      by (cases "parseFloat (cleaned t)") (simp_all add: toNumber_def isNaN_simps is_finite_simps)
  qed (simp_all add: toNumber_def is_finite_simps)
  from a b c toNumber_string [of s] toNumber_string_not_NaN [of s] show ?thesis
    by simp
qed

theorem toNumber_total_witness:
  "toNumber (JNum (Fin 7)) = Fin 7
   \<and> \<not> isNaN (toNumber (JStr ''$1,200.50''))
   \<and> toNumber (JBool True) = Fin 0
   \<and> \<not> isNaN (toNumber (JBool True))
   \<and> is_finite (toNumber (JBool True))"
proof -
  note t = toNumber_total [of "Fin 7" "''$1,200.50''" True "''x''" "JBool True"]
  from t have "\<not> isNaN (toNumber (JBool True))" "is_finite (toNumber (JBool True))"
    by (simp_all add: isNaN_simps is_finite_simps)
  with t show ?thesis
    by blast
qed

section \<open>Determinism of the customer aggregation\<close>

lemma natToString_digit: "n < 10 \<Longrightarrow> natToString n = [digitChar n]"
  by (simp add: natToString.simps)

text \<open>Property keys of numeric, boolean and string cells.\<close>

lemma fracDigits_integer: "of_int \<lfloor>q\<rfloor> = q \<Longrightarrow> fracDigits n q = 0"
  by (cases n) simp_all

lemma fracDigits_step:
  "0 < n \<Longrightarrow> of_int \<lfloor>q\<rfloor> \<noteq> q \<Longrightarrow> fracDigits n q = Suc (fracDigits (n - 1) (q * 10))"
  by (cases n) simp_all

lemma posToString_integer_example: "posToString 1001 = ''1001''"
proof -
  have "natToString 1001 = ''1001''"
    by (simp add: natToString.simps [of 1001] natToString.simps [of 100]
        natToString.simps [of 10] natToString_digit digitChar_def)
  then show ?thesis
    by (simp add: posToString_def fracDigits_integer trailingZeros.simps [of 1001] Let_def)
qed

lemma posToString_fraction_example: "posToString (5 / 2) = ''2.5''"
proof -
  have f: "\<lfloor>(5::rat) / 2\<rfloor> = 2"
    by (simp add: floor_eq_iff)
  have "fracDigits 1100 (5 / 2) = 1"
    by (simp add: fracDigits_step f fracDigits_integer)
  moreover have "natToString 25 = ''25''"
    by (simp add: natToString.simps [of 25] natToString_digit digitChar_def)
  ultimately show ?thesis
    by (simp add: posToString_def Let_def)
qed

lemma ToString_examples:
  "ToString (JNum (Fin 1001)) = ''1001''" "ToString (JNum (Fin (- 5 / 2))) = ''-2.5''"
  "ToString (JBool True) = ''true''" "ToString (JStr ''C-17'') = ''C-17''"
  by (simp_all add: posToString_integer_example posToString_fraction_example)




text \<open>
  When the coerced revenue of a row is 0 or NaN, the loop body takes the next draw and
  adds \<open>draw * 500 + 50\<close> in its place.
\<close>

lemma customerStep_draw:
  assumes "\<not> truthyNum (toNumber (arrGet rs i))"
  shows "customerStep rnd cs rs i (acc, k) =
     (let key = ToString (if truthy (arrGet cs i) then arrGet cs i
                          else JStr (''Customer '' @ natToString (i + 1)));
          old = (case map_of acc key of
                   None \<Rightarrow> Fin 0
                 | Some v \<Rightarrow> if truthyNum v then v else Fin 0)
      in (AList.update key (js_add old (js_add (js_mul (Fin (rnd k)) (Fin 500)) (Fin 50))) acc,
          Suc k))"
  using assms by (simp add: customerStep_def Let_def)













section \<open>Growth rates and trend series\<close>







section \<open>Profit margin\<close>

lemma totalRevenue_zeroRevenueUpload:
  "totalRevenue (aggregate sampleAggregator sampleCatalog zeroRevenueUpload) = Fin 0"
  by (simp add: aggregate_def Let_def sumField_def valuesFor_def zeroRevenueUpload_def
      sampleAggregator_def cellValue_def rowGet_def Number_value_zero)

text \<open>
  Claim C5. For every dataset whose aggregated total revenue is 0, the profit margin is
  exactly 0: a finite number, not NaN and not an infinity.
\<close>

theorem profitMargin_zero_revenue:
  "totalRevenue (aggregate A catalog ds) = Fin 0 \<Longrightarrow>
     profitMargin (aggregate A catalog ds) = Fin 0
     \<and> is_finite (profitMargin (aggregate A catalog ds))
     \<and> \<not> isNaN (profitMargin (aggregate A catalog ds))"
  by (simp add: aggregate_def Let_def ratio_def is_finite_simps isNaN_simps)

theorem profitMargin_zero_revenue_witness:
  "totalRevenue (aggregate sampleAggregator sampleCatalog zeroRevenueUpload) = Fin 0
   \<and> profitMargin (aggregate sampleAggregator sampleCatalog zeroRevenueUpload) = Fin 0"
  using totalRevenue_zeroRevenueUpload
    profitMargin_zero_revenue [OF totalRevenue_zeroRevenueUpload]
  by simp

section \<open>The resolver\<close>

lemma walk_subset: "set (walk ps acc) \<subseteq> set ps \<union> set acc"
proof (induction ps arbitrary: acc)
  case Nil
  then show ?case by simp
next
  case (Cons p ps)
  from Cons [of "acc @ [p]"] Cons [of acc] show ?case
    by (auto split: if_splits)
qed

lemma walk_distinct_columns:
  "distinct (map (columnName \<circ> snd) acc) \<Longrightarrow> distinct (map (columnName \<circ> snd) (walk ps acc))"
  by (induction ps arbitrary: acc) auto

lemma walk_distinct_fields:
  "distinct (map (fieldId \<circ> snd) acc) \<Longrightarrow> distinct (map (fieldId \<circ> snd) (walk ps acc))"
  by (induction ps arbitrary: acc) auto

lemma classify_columnName:
  "c \<in> set (classify scoreOf column catalog) \<Longrightarrow> columnName c = name column"
  by (auto simp: classify_def)

lemma bestCandidate_columnName:
  "bestCandidate scoreOf catalog column = Some c \<Longrightarrow> columnName c = name column"
  using classify_columnName [of c scoreOf column catalog]
  by (auto simp: bestCandidate_def split: list.splits)

lemma proposals_columnName:
  assumes "p \<in> set (proposals scoreOf T columns catalog)"
  shows "fst p < length columns \<and> columnName (snd p) = name (columns ! fst p)"
proof -
  from assms obtain i column where
    ic: "(i, column) \<in> set (enumerate 0 columns)" and
    p: "p \<in> set (case bestCandidate scoreOf catalog column of
                    None \<Rightarrow> []
                  | Some c \<Rightarrow> if T < matchConfidence c then [(i, c)] else [])"
    by (auto simp: proposals_def)
  from ic have i: "i < length columns" "column = columns ! i"
    by (auto simp: in_set_enumerate_eq)
  show ?thesis
  proof (cases "bestCandidate scoreOf catalog column")
    case None
    with p show ?thesis by simp
  next
    case (Some c)
    with p have "p = (i, c)" by (simp split: if_splits)
    with i Some show ?thesis
      using bestCandidate_columnName [of scoreOf catalog column c] by simp
  qed
qed

lemma resolveEntry_mapped:
  assumes "mapped (resolveEntry scoreOf catalog acc ic)"
  obtains p where "p \<in> set acc" "fst p = fst ic"
    "businessField (resolveEntry scoreOf catalog acc ic) = Some (fieldId (snd p))"
proof -
  from assms obtain p where f: "find (\<lambda>p. fst p = fst ic) acc = Some p"
    by (auto simp: resolveEntry_def split: option.splits)
  then have "p \<in> set acc" "fst p = fst ic"
    by (auto simp: find_Some_iff)
  moreover from f have "businessField (resolveEntry scoreOf catalog acc ic) = Some (fieldId (snd p))"
    by (simp add: resolveEntry_def)
  ultimately show ?thesis using that by blast
qed

lemma resolveEntry_sourceColumn:
  "sourceColumn (resolveEntry scoreOf catalog acc ic) = name (snd ic)"
  by (simp add: resolveEntry_def split: option.splits)

lemma enumerate_snd: "ic \<in> set (enumerate 0 xs) \<Longrightarrow> snd ic = xs ! fst ic"
  by (cases ic) (auto simp: in_set_enumerate_eq)

lemma classify_samples:
  "classify sampleScoring \<lparr>name = ''amount'', sampleValues = v\<rparr> sampleCatalog =
     [\<lparr>fieldId = ''Revenue'', columnName = ''amount'', matchConfidence = 9 / 10,
       reasons = [nameMatch, typeMatch]\<rparr>,
      \<lparr>fieldId = ''Order Date'', columnName = ''amount'', matchConfidence = 1 / 10,
       reasons = []\<rparr>]"
  "classify sampleScoring \<lparr>name = ''total'', sampleValues = v\<rparr> sampleCatalog =
     [\<lparr>fieldId = ''Revenue'', columnName = ''total'', matchConfidence = 7 / 10,
       reasons = [keywordMatch]\<rparr>,
      \<lparr>fieldId = ''Order Date'', columnName = ''total'', matchConfidence = 1 / 10,
       reasons = []\<rparr>]"
  "classify sampleScoring \<lparr>name = ''when'', sampleValues = v\<rparr> sampleCatalog =
     [\<lparr>fieldId = ''Order Date'', columnName = ''when'', matchConfidence = 4 / 5,
       reasons = [aliasMatch]\<rparr>,
      \<lparr>fieldId = ''Revenue'', columnName = ''when'', matchConfidence = 1 / 10,
       reasons = []\<rparr>]"
  by (simp_all add: classify_def sampleScoring_def sampleCatalog_def clip_def)

lemma proposals_sample:
  "proposals sampleScoring (1 / 2) sampleColumns sampleCatalog =
     [(0, \<lparr>fieldId = ''Revenue'', columnName = ''amount'', matchConfidence = 9 / 10,
           reasons = [nameMatch, typeMatch]\<rparr>),
      (2, \<lparr>fieldId = ''Order Date'', columnName = ''when'', matchConfidence = 4 / 5,
           reasons = [aliasMatch]\<rparr>),
      (1, \<lparr>fieldId = ''Revenue'', columnName = ''total'', matchConfidence = 7 / 10,
           reasons = [keywordMatch]\<rparr>)]"
  by (simp add: proposals_def sampleColumns_def bestCandidate_def classify_samples)

lemma resolve_sample:
  "resolve sampleScoring (1 / 2) sampleColumns sampleCatalog =
     [\<lparr>sourceColumn = ''amount'', businessField = Some ''Revenue'', mapped = True,
       confidence = 9 / 10\<rparr>,
      \<lparr>sourceColumn = ''total'', businessField = None, mapped = False,
       confidence = 7 / 10\<rparr>,
      \<lparr>sourceColumn = ''when'', businessField = Some ''Order Date'', mapped = True,
       confidence = 4 / 5\<rparr>]"
proof -
  have e: "enumerate 0 sampleColumns =
      [(0, \<lparr>name = ''amount'', sampleValues = [JStr ''$100.00'']\<rparr>),
       (1, \<lparr>name = ''total'', sampleValues = [JStr ''$250.50'']\<rparr>),
       (2, \<lparr>name = ''when'', sampleValues = [JStr ''02/29/2024'']\<rparr>)]"
    by (simp add: sampleColumns_def)
  show ?thesis
    by (simp add: resolve_def proposals_sample e resolveEntry_def bestCandidate_def
        classify_samples)
qed

text \<open>
  Claim C2. In every output of the resolver the entries with \<open>mapped = true\<close> form a
  bijection between source columns and business fields: no business field and no source
  column occurs twice among them.
\<close>

theorem resolve_bijective:
  "bijectiveOnMapped (resolve scoreOf T columns catalog)"
proof -
  define acc where "acc = walk (proposals scoreOf T columns catalog) []"
  define xs where "xs = enumerate 0 columns"
  define f where "f = resolveEntry scoreOf catalog acc"
  have res: "resolve scoreOf T columns catalog = map f xs"
    by (simp add: resolve_def acc_def xs_def f_def)
  have acc_props: "set acc \<subseteq> set (proposals scoreOf T columns catalog)"
    using walk_subset [of "proposals scoreOf T columns catalog" "[]"] by (simp add: acc_def)
  have dc: "distinct (map (columnName \<circ> snd) acc)"
    unfolding acc_def by (rule walk_distinct_columns) simp
  have df: "distinct (map (fieldId \<circ> snd) acc)"
    unfolding acc_def by (rule walk_distinct_fields) simp
  have dx: "distinct xs"
    by (simp add: xs_def distinct_enumerate)
  have same: "ic = jc" if "ic \<in> set xs" "jc \<in> set xs" "fst ic = fst jc" for ic jc
  proof -
    from that(1) have "snd ic = columns ! fst ic"
      unfolding xs_def by (rule enumerate_snd)
    moreover from that(2) have "snd jc = columns ! fst jc"
      unfolding xs_def by (rule enumerate_snd)
    ultimately show ?thesis
      using that(3) by (simp add: prod_eq_iff)
  qed
  have key: "ic = jc"
    if ic: "ic \<in> set xs" "mapped (f ic)" and jc: "jc \<in> set xs" "mapped (f jc)"
      and eq: "sourceColumn (f ic) = sourceColumn (f jc) \<or> businessField (f ic) = businessField (f jc)"
    for ic jc
  proof -
    from ic(2) obtain p where p: "p \<in> set acc" "fst p = fst ic"
      "businessField (f ic) = Some (fieldId (snd p))"
      unfolding f_def by (rule resolveEntry_mapped)
    from jc(2) obtain q where q: "q \<in> set acc" "fst q = fst jc"
      "businessField (f jc) = Some (fieldId (snd q))"
      unfolding f_def by (rule resolveEntry_mapped)
    have pc: "columnName (snd p) = name (snd ic)"
      using proposals_columnName [of p scoreOf T columns catalog] p acc_props
        enumerate_snd [of ic columns] ic(1)
      by (auto simp: xs_def)
    have qc: "columnName (snd q) = name (snd jc)"
      using proposals_columnName [of q scoreOf T columns catalog] q acc_props
        enumerate_snd [of jc columns] jc(1)
      by (auto simp: xs_def)
    have "p = q"
    proof -
      from eq consider "sourceColumn (f ic) = sourceColumn (f jc)"
        | "businessField (f ic) = businessField (f jc)" by blast
      then show ?thesis
      proof cases
        case 1
        then have "(columnName \<circ> snd) p = (columnName \<circ> snd) q"
          using pc qc by (simp add: f_def resolveEntry_sourceColumn)
        moreover from dc have "inj_on (columnName \<circ> snd) (set acc)"
          by (simp add: distinct_map)
        ultimately show ?thesis
          using p(1) q(1) by (blast dest: inj_onD)
      next
        case 2
        then have "(fieldId \<circ> snd) p = (fieldId \<circ> snd) q"
          using p(3) q(3) by simp
        moreover from df have "inj_on (fieldId \<circ> snd) (set acc)"
          by (simp add: distinct_map)
        ultimately show ?thesis
          using p(1) q(1) by (blast dest: inj_onD)
      qed
    qed
    with p(2) q(2) have "fst ic = fst jc" by simp
    with ic(1) jc(1) show ?thesis by (rule same)
  qed
  have "distinct (map sourceColumn (filter mapped (map f xs)))"
  proof -
    have "inj_on (sourceColumn \<circ> f) (set (filter (mapped \<circ> f) xs))"
    proof (rule inj_onI)
      fix ic jc
      assume "ic \<in> set (filter (mapped \<circ> f) xs)" "jc \<in> set (filter (mapped \<circ> f) xs)"
        "(sourceColumn \<circ> f) ic = (sourceColumn \<circ> f) jc"
      then show "ic = jc"
        using key [of ic jc] by simp
    qed
    with dx have "distinct (map (sourceColumn \<circ> f) (filter (mapped \<circ> f) xs))"
      by (simp add: distinct_map)
    then show ?thesis by (simp add: filter_map)
  qed
  moreover have "distinct (map businessField (filter mapped (map f xs)))"
  proof -
    have "inj_on (businessField \<circ> f) (set (filter (mapped \<circ> f) xs))"
    proof (rule inj_onI)
      fix ic jc
      assume "ic \<in> set (filter (mapped \<circ> f) xs)" "jc \<in> set (filter (mapped \<circ> f) xs)"
        "(businessField \<circ> f) ic = (businessField \<circ> f) jc"
      then show "ic = jc"
        using key [of ic jc] by simp
    qed
    with dx have "distinct (map (businessField \<circ> f) (filter (mapped \<circ> f) xs))"
      by (simp add: distinct_map)
    then show ?thesis by (simp add: filter_map)
  qed
  ultimately show ?thesis
    by (simp add: bijectiveOnMapped_def res)
qed

theorem resolve_bijective_witness:
  "bijectiveOnMapped (resolve sampleScoring (1 / 2) sampleColumns sampleCatalog)
   \<and> resolve sampleScoring (1 / 2) sampleColumns sampleCatalog =
     [\<lparr>sourceColumn = ''amount'', businessField = Some ''Revenue'', mapped = True,
       confidence = 9 / 10\<rparr>,
      \<lparr>sourceColumn = ''total'', businessField = None, mapped = False,
       confidence = 7 / 10\<rparr>,
      \<lparr>sourceColumn = ''when'', businessField = Some ''Order Date'', mapped = True,
       confidence = 4 / 5\<rparr>]"
  by (intro conjI) (rule resolve_bijective, rule resolve_sample)

section \<open>Degenerate input of the resolver\<close>

lemma proposals_empty_catalog: "proposals scoreOf T columns [] = []"
proof -
  have h: "concat (map (\<lambda>(i, column).
                  (case bestCandidate scoreOf [] column of
                     None \<Rightarrow> []
                   | Some c \<Rightarrow> if T < matchConfidence c then [(i, c)] else []))
          xs) = []" for xs :: "(nat \<times> RawColumn) list"
    by (induction xs) (auto simp: bestCandidate_def classify_def)
  show ?thesis
    unfolding proposals_def h by simp
qed

text \<open>
  Claim C7. The resolver is defined on degenerate input: without columns the result is
  empty, whatever the catalog; with an empty catalog every column is in the result with
  \<open>mapped = false\<close> and no business field.
\<close>

theorem resolve_degenerate:
  "resolve scoreOf T [] catalog = []
   \<and> resolve scoreOf T columns [] =
       map (\<lambda>column. \<lparr>sourceColumn = name column, businessField = None, mapped = False,
                       confidence = 0\<rparr>) columns"
proof -
  have "map (resolveEntry scoreOf [] []) (enumerate 0 columns) =
        map ((\<lambda>column. \<lparr>sourceColumn = name column, businessField = None, mapped = False,
                       confidence = 0\<rparr>) \<circ> snd) (enumerate 0 columns)"
    by (rule map_cong) (auto simp: resolveEntry_def bestCandidate_def classify_def)
  then show ?thesis
    by (simp add: resolve_def proposals_empty_catalog flip: map_map)
qed

theorem resolve_degenerate_witness:
  "resolve sampleScoring (1 / 2) [] sampleCatalog = []
   \<and> resolve sampleScoring (1 / 2) sampleColumns [] =
     [\<lparr>sourceColumn = ''amount'', businessField = None, mapped = False, confidence = 0\<rparr>,
      \<lparr>sourceColumn = ''total'', businessField = None, mapped = False, confidence = 0\<rparr>,
      \<lparr>sourceColumn = ''when'', businessField = None, mapped = False, confidence = 0\<rparr>]"
  using resolve_degenerate [of sampleScoring "1 / 2" sampleCatalog sampleColumns]
  by (simp add: sampleColumns_def)

section \<open>Override\<close>

lemma override_sample:
  "override sampleMapping ''total'' (Some ''Revenue'') =
     [\<lparr>sourceColumn = ''amount'', businessField = None, mapped = False,
       confidence = 9 / 10\<rparr>,
      \<lparr>sourceColumn = ''total'', businessField = Some ''Revenue'', mapped = True,
       confidence = 7 / 10\<rparr>]"
  by (simp add: override_def sampleMapping_def)

text \<open>
  Claim C8. In a mapping with one entry per column whose mapped entries form a
  bijection, an override of a column to a field that another column holds returns the
  updated mapping: the prior holder is unmapped and has no business field, the named
  column is mapped to the field and is the only entry that holds it, the entries of the
  other columns are unchanged, and the mapped entries still form a bijection.
\<close>

theorem override_reassigns:
  assumes wf: "distinct (map sourceColumn ms)" "bijectiveOnMapped ms"
    and holder: "h \<in> set ms" "mapped h" "businessField h = Some f" "sourceColumn h \<noteq> column"
    and named: "n \<in> set ms" "sourceColumn n = column"
  shows "map sourceColumn (override ms column (Some f)) = map sourceColumn ms
     \<and> h\<lparr>businessField := None, mapped := False\<rparr> \<in> set (override ms column (Some f))
     \<and> n\<lparr>businessField := Some f, mapped := True\<rparr> \<in> set (override ms column (Some f))
     \<and> (\<forall>m \<in> set (override ms column (Some f)).
           sourceColumn m = sourceColumn h \<longrightarrow> \<not> mapped m \<and> businessField m = None)
     \<and> (\<forall>m \<in> set (override ms column (Some f)).
           (sourceColumn m = column) = (mapped m \<and> businessField m = Some f))
     \<and> (\<forall>m \<in> set ms. sourceColumn m \<noteq> column \<and> businessField m \<noteq> Some f
           \<longrightarrow> m \<in> set (override ms column (Some f)))
     \<and> bijectiveOnMapped (override ms column (Some f))"
proof -
  define g :: "ColumnMapping \<Rightarrow> ColumnMapping" where "g = (\<lambda>m. if sourceColumn m = column
                    then m\<lparr>businessField := Some f, mapped := True\<rparr>
                    else if businessField m = Some f
                    then m\<lparr>businessField := None, mapped := False\<rparr>
                    else m)"
  have ov: "override ms column (Some f) = map g ms"
    by (simp add: override_def g_def)
  have src: "sourceColumn (g m) = sourceColumn m" for m
    by (simp add: g_def)
  have inj: "inj_on sourceColumn (set ms)"
    using wf(1) by (simp add: distinct_map)
  have 1: "map sourceColumn (map g ms) = map sourceColumn ms"
    by (simp add: src)
  have 2: "h\<lparr>businessField := None, mapped := False\<rparr> \<in> set (map g ms)"
  proof -
    have "g h = h\<lparr>businessField := None, mapped := False\<rparr>"
      using holder by (simp add: g_def)
    with holder(1) show ?thesis by force
  qed
  have 3: "n\<lparr>businessField := Some f, mapped := True\<rparr> \<in> set (map g ms)"
  proof -
    have "g n = n\<lparr>businessField := Some f, mapped := True\<rparr>"
      using named by (simp add: g_def)
    with named(1) show ?thesis by force
  qed
  have 4: "\<forall>m \<in> set (map g ms).
           sourceColumn m = sourceColumn h \<longrightarrow> \<not> mapped m \<and> businessField m = None"
  proof (intro ballI impI)
    fix m assume "m \<in> set (map g ms)" and eq: "sourceColumn m = sourceColumn h"
    then obtain m0 where m0: "m0 \<in> set ms" "m = g m0" by auto
    with eq src have "sourceColumn m0 = sourceColumn h" by simp
    with inj m0(1) holder(1) have "m0 = h" by (blast dest: inj_onD)
    with m0(2) holder show "\<not> mapped m \<and> businessField m = None"
      by (simp add: g_def)
  qed
  have 5: "\<forall>m \<in> set (map g ms).
           (sourceColumn m = column) = (mapped m \<and> businessField m = Some f)"
  proof
    fix m assume "m \<in> set (map g ms)"
    then obtain m0 where m0: "m0 \<in> set ms" "m = g m0" by auto
    then show "(sourceColumn m = column) = (mapped m \<and> businessField m = Some f)"
      by (auto simp: g_def)
  qed
  have 6: "\<forall>m \<in> set ms. sourceColumn m \<noteq> column \<and> businessField m \<noteq> Some f
           \<longrightarrow> m \<in> set (map g ms)"
  proof (intro ballI impI)
    fix m assume "m \<in> set ms" "sourceColumn m \<noteq> column \<and> businessField m \<noteq> Some f"
    then have "g m = m" "m \<in> set ms" by (simp_all add: g_def)
    then show "m \<in> set (map g ms)" by force
  qed
  have 7: "bijectiveOnMapped (map g ms)"
  proof -
    have dms: "distinct ms"
      using wf(1) by (simp add: distinct_map)
    have "distinct (map sourceColumn (filter (mapped \<circ> g) ms))"
      using wf(1) by (rule distinct_map_filter)
    then have a: "distinct (map sourceColumn (filter mapped (map g ms)))"
      by (simp add: filter_map comp_def src)
    have injf: "inj_on businessField (set (filter mapped ms))"
      using wf(2) by (simp add: bijectiveOnMapped_def distinct_map)
    have "inj_on (businessField \<circ> g) (set (filter (mapped \<circ> g) ms))"
    proof (rule inj_onI)
      fix x y
      assume x: "x \<in> set (filter (mapped \<circ> g) ms)" and y: "y \<in> set (filter (mapped \<circ> g) ms)"
        and eq: "(businessField \<circ> g) x = (businessField \<circ> g) y"
      show "x = y"
      proof (cases "sourceColumn x = column")
        case True
        with eq have "businessField (g y) = Some f" by (simp add: g_def)
        with y have "sourceColumn y = column" by (auto simp: g_def split: if_splits)
        with True inj x y show ?thesis by (auto dest: inj_onD)
      next
        case False
        with x have gx: "g x = x" "mapped x" by (auto simp: g_def split: if_splits)
        show ?thesis
        proof (cases "sourceColumn y = column")
          case True
          with eq gx have "businessField x = Some f" by (simp add: g_def)
          with False x show ?thesis by (simp add: g_def)
        next
          case ny: False
          with y have gy: "g y = y" "mapped y" by (auto simp: g_def split: if_splits)
          with gx eq have "businessField x = businessField y" by simp
          with injf gx gy x y show ?thesis by (auto dest: inj_onD)
        qed
      qed
    qed
    with dms have "distinct (map (businessField \<circ> g) (filter (mapped \<circ> g) ms))"
      by (simp add: distinct_map)
    then have b: "distinct (map businessField (filter mapped (map g ms)))"
      by (simp add: filter_map)
    from a b show ?thesis by (simp add: bijectiveOnMapped_def)
  qed
  from 1 2 3 4 5 6 7 show ?thesis
    unfolding ov by blast
qed

theorem override_reassigns_witness:
  "override sampleMapping ''total'' (Some ''Revenue'') =
     [\<lparr>sourceColumn = ''amount'', businessField = None, mapped = False,
       confidence = 9 / 10\<rparr>,
      \<lparr>sourceColumn = ''total'', businessField = Some ''Revenue'', mapped = True,
       confidence = 7 / 10\<rparr>]
   \<and> bijectiveOnMapped (override sampleMapping ''total'' (Some ''Revenue''))"
proof -
  let ?h = "\<lparr>sourceColumn = ''amount'', businessField = Some ''Revenue'', mapped = True,
             confidence = 9 / 10\<rparr>"
  let ?n = "\<lparr>sourceColumn = ''total'', businessField = None, mapped = False,
             confidence = 7 / 10\<rparr>"
  have wf: "distinct (map sourceColumn sampleMapping)" "bijectiveOnMapped sampleMapping"
    by (simp_all add: sampleMapping_def bijectiveOnMapped_def)
  have holder: "?h \<in> set sampleMapping" "mapped ?h" "businessField ?h = Some ''Revenue''"
    "sourceColumn ?h \<noteq> ''total''"
    by (simp_all add: sampleMapping_def)
  have named: "?n \<in> set sampleMapping" "sourceColumn ?n = ''total''"
    by (simp_all add: sampleMapping_def)
  from override_reassigns [OF wf holder named]
  have "bijectiveOnMapped (override sampleMapping ''total'' (Some ''Revenue''))"
    by blast
  with override_sample show ?thesis
    by blast
qed

end
